theory Spec2Isabelle
  imports Main "HOL-Library.Multiset" "HOL-Library.Sublist"
begin

section \<open>Values of the Go program\<close>

text \<open>
  A Go \<^verbatim>\<open>error\<close> is modelled by its message; the nil error is \<open>None\<close> of
  \<open>error option\<close>. A \<^verbatim>\<open>time.Time\<close> is an instant: whole seconds since the Unix epoch and
  the nanoseconds within the second, which is what \<^verbatim>\<open>Unix()\<close> and \<^verbatim>\<open>Before()\<close> read
  (the monotonic clock reading that \<^verbatim>\<open>time.Now()\<close> adds is left out). Go's \<^verbatim>\<open>int\<close> and
  \<^verbatim>\<open>int64\<close> are \<open>int\<close>: no length, index or date of the program comes near 2^63. A Go string is
  a byte sequence and \<^verbatim>\<open>len\<close> counts bytes; \<open>string\<close> is a list of 8-bit characters.
\<close>

datatype error = Error string

fun message :: "error \<Rightarrow> string" where
  "message (Error s) = s"

record time =
  sec :: int
  nsec :: nat

definition Unix :: "time \<Rightarrow> int" where
  "Unix t = sec t"

definition Before :: "time \<Rightarrow> time \<Rightarrow> bool" where
  "Before t u = (sec t < sec u \<or> (sec t = sec u \<and> nsec t < nsec u))"

text \<open>The verb \<^verbatim>\<open>%d\<close> of package fmt: decimal digits, with a minus sign below zero.\<close>

definition digit :: "int \<Rightarrow> char" where
  "digit d = ''0123456789'' ! nat d"

function digits :: "int \<Rightarrow> string" where
  "digits n = (if n < 10 then [digit n] else digits (n div 10) @ [digit (n mod 10)])"
  by pat_completeness auto
termination
  by (relation "measure nat") auto

declare digits.simps [simp del]

definition itoa :: "int \<Rightarrow> string" where
  "itoa i = (if i < 0 then CHR ''-'' # digits (- i) else digits i)"

text \<open>
  Go's \<^verbatim>\<open>int\<close> has 64 bits on the usual platforms and its arithmetic wraps around. The
  one expression of the program that can leave the range is the bound
  \<^verbatim>\<open>len(sorted)-1-n\<close> of the loop of \<^verbatim>\<open>migrateDownN\<close>, for an \<^verbatim>\<open>n\<close> close to the
  least \<^verbatim>\<open>int\<close>; there the wrap-around is written out.
\<close>

definition wrap64 :: "int \<Rightarrow> int" where
  "wrap64 x = (x + 2 ^ 63) mod 2 ^ 64 - 2 ^ 63"

section \<open>The database, the driver and the record of calls\<close>

text \<open>
  The database is what a transaction reads and writes: the rows of table \<^verbatim>\<open>migrations\<close>
  in insertion order (\<open>None\<close> while the table does not exist; the table has no uniqueness
  constraint, so the rows are a list) and everything else, of a type \<open>'s\<close> the runner never
  looks at.
\<close>

record 's db =
  tracking :: "string list option"
  schema :: 's

subsection \<open>The migration unit: SimpleMigration\<close>

text \<open>
  \<^verbatim>\<open>type MigrationIncrement func(tx *sql.Tx) error\<close>: an increment works on the state of
  the open transaction, which it may change in any way (the tracking table included), and
  returns an error or nil.
\<close>

type_synonym 's MigrationIncrement = "'s db \<Rightarrow> error option \<times> 's db"

record 's SimpleMigration =
  name :: string
  date :: time
  up :: "'s MigrationIncrement option"
  down :: "'s MigrationIncrement option"

type_synonym 's MigrationList = "'s SimpleMigration list"

definition NewSimpleMigration ::
  "string \<Rightarrow> time \<Rightarrow> 's MigrationIncrement option \<Rightarrow> 's MigrationIncrement option
    \<Rightarrow> 's SimpleMigration" where
  "NewSimpleMigration nm d u dn = \<lparr>name = nm, date = d, up = u, down = dn\<rparr>"

definition Up :: "'s SimpleMigration \<Rightarrow> 's MigrationIncrement" where
  "Up tm tx = (case up tm of Some f \<Rightarrow> f tx | None \<Rightarrow> (None, tx))"

definition Down :: "'s SimpleMigration \<Rightarrow> 's MigrationIncrement" where
  "Down tm tx = (case down tm of Some f \<Rightarrow> f tx | None \<Rightarrow> (None, tx))"

definition Date :: "'s SimpleMigration \<Rightarrow> time" where
  "Date tm = date tm"

definition Name :: "'s SimpleMigration \<Rightarrow> string" where
  "Name tm = name tm"

subsection \<open>The driver and the logger\<close>

text \<open>
  Every call the program makes on a collaborator is recorded, in order, with what the call
  returned: the statements sent to the driver, the increments invoked, the messages given
  to the logger (the fields set by \<^verbatim>\<open>WithField\<close>, then the formatted text).
\<close>

datatype event =
    ExecCreate "error option"
  | QuerySelect "error option"
  | RowsNext "error option"
  | RowsScan "error option"
  | RowsClose
  | TxBegin "error option"
  | CalledUp string "error option"
  | CalledDown string "error option"
  | ExecInsert string "error option"
  | ExecDelete string "error option"
  | TxCommit "error option"
  | TxRollback
  | LogInfo "(string \<times> int) list" string

text \<open>
  The world outside the program: the committed database, the script of the driver and the
  record of calls. The driver is a collaborator that can fail at any call for reasons of
  its own (a lost connection, a value that does not convert); as with the expectations of
  the mock driver in the repository's tests, the script lists the outcomes of the coming
  driver calls, one entry per call, \<open>Some e\<close> for a call that fails with \<open>e\<close>; calls
  beyond the end of the script do not fail on the driver's account.
\<close>

record 's world =
  database :: "'s db"
  script :: "error option list"
  trace :: "event list"

definition respond :: "'s world \<Rightarrow> error option \<times> 's world" where
  "respond w = (case script w of [] \<Rightarrow> (None, w) | r # rs \<Rightarrow> (r, w\<lparr>script := rs\<rparr>))"

definition emit :: "event \<Rightarrow> 's world \<Rightarrow> 's world" where
  "emit ev w = w\<lparr>trace := trace w @ [ev]\<rparr>"

text \<open>The error of a statement that names table \<^verbatim>\<open>migrations\<close> while it does not exist.\<close>

definition noTable :: error where
  "noTable = Error ''table migrations does not exist''"

text \<open>\<^verbatim>\<open>db.Exec(`CREATE TABLE IF NOT EXISTS migrations (migration VARCHAR(500) NOT NULL)`)\<close>\<close>

definition execCreate :: "'s world \<Rightarrow> error option \<times> 's world" where
  "execCreate w =
     (case respond w of
        (Some err, w1) \<Rightarrow> (Some err, emit (ExecCreate (Some err)) w1)
      | (None, w1) \<Rightarrow>
          (None, emit (ExecCreate None)
             (case tracking (database w1) of
                None \<Rightarrow> w1\<lparr>database := (database w1)\<lparr>tracking := Some []\<rparr>\<rparr>
              | Some rows \<Rightarrow> w1)))"

text \<open>\<^verbatim>\<open>db.Query(`SELECT * FROM migrations`)\<close>: an error, or the rows the cursor will walk.\<close>

definition querySelect :: "'s world \<Rightarrow> (error + string list) \<times> 's world" where
  "querySelect w =
     (case respond w of
        (Some err, w1) \<Rightarrow> (Inl err, emit (QuerySelect (Some err)) w1)
      | (None, w1) \<Rightarrow>
          (case tracking (database w1) of
             None \<Rightarrow> (Inl noTable, emit (QuerySelect (Some noTable)) w1)
           | Some rows \<Rightarrow> (Inr rows, emit (QuerySelect None) w1)))"

text \<open>
  \<^verbatim>\<open>db.Begin()\<close>: the transaction works on a copy of the committed database, which
  \<^verbatim>\<open>tx.Commit()\<close> makes the committed one and \<^verbatim>\<open>tx.Rollback()\<close> drops; a
  \<^verbatim>\<open>Commit\<close> that fails commits nothing. The source discards what \<^verbatim>\<open>Rollback\<close> and
  \<^verbatim>\<open>Close\<close> return, so they take no script entry.
\<close>

definition txBegin :: "'s world \<Rightarrow> (error + 's db) \<times> 's world" where
  "txBegin w =
     (case respond w of
        (Some err, w1) \<Rightarrow> (Inl err, emit (TxBegin (Some err)) w1)
      | (None, w1) \<Rightarrow> (Inr (database w1), emit (TxBegin None) w1))"

definition txCommit :: "'s world \<Rightarrow> 's db \<Rightarrow> error option \<times> 's world" where
  "txCommit w tx =
     (case respond w of
        (Some err, w1) \<Rightarrow> (Some err, emit (TxCommit (Some err)) w1)
      | (None, w1) \<Rightarrow> (None, emit (TxCommit None) (w1\<lparr>database := tx\<rparr>)))"

definition txRollback :: "'s world \<Rightarrow> 's world" where
  "txRollback w = emit TxRollback w"

text \<open>\<^verbatim>\<open>tx.Exec(`INSERT INTO migrations VALUES ($1)`, name)\<close>\<close>

definition execInsert :: "'s world \<Rightarrow> 's db \<Rightarrow> string \<Rightarrow> error option \<times> 's db \<times> 's world" where
  "execInsert w tx key =
     (case respond w of
        (Some err, w1) \<Rightarrow> (Some err, tx, emit (ExecInsert key (Some err)) w1)
      | (None, w1) \<Rightarrow>
          (case tracking tx of
             None \<Rightarrow> (Some noTable, tx, emit (ExecInsert key (Some noTable)) w1)
           | Some rows \<Rightarrow>
               (None, tx\<lparr>tracking := Some (rows @ [key])\<rparr>, emit (ExecInsert key None) w1)))"

text \<open>\<^verbatim>\<open>tx.Exec(`DELETE FROM migrations WHERE migration = $1`, name)\<close>\<close>

definition execDelete :: "'s world \<Rightarrow> 's db \<Rightarrow> string \<Rightarrow> error option \<times> 's db \<times> 's world" where
  "execDelete w tx key =
     (case respond w of
        (Some err, w1) \<Rightarrow> (Some err, tx, emit (ExecDelete key (Some err)) w1)
      | (None, w1) \<Rightarrow>
          (case tracking tx of
             None \<Rightarrow> (Some noTable, tx, emit (ExecDelete key (Some noTable)) w1)
           | Some rows \<Rightarrow>
               (None, tx\<lparr>tracking := Some (filter (\<lambda>r. r \<noteq> key) rows)\<rparr>,
                emit (ExecDelete key None) w1)))"

section \<open>migrations.go\<close>

subsection \<open>dbName\<close>

definition dbName :: "'s SimpleMigration \<Rightarrow> string" where
  "dbName mig =
     (let migStr = itoa (Unix (Date mig)) @ ''_'' @ Name mig;
          n = length migStr;
          n = (if n > 500 then 500 else n)
      in take n migStr)"

subsection \<open>MigrationList as a sort.Interface, and sort.Sort\<close>

definition Len :: "'s MigrationList \<Rightarrow> nat" where
  "Len ml = length ml"

definition Swap :: "'s MigrationList \<Rightarrow> nat \<Rightarrow> nat \<Rightarrow> 's MigrationList" where
  "Swap ml i j = ml[i := ml ! j, j := ml ! i]"

definition Less :: "'s MigrationList \<Rightarrow> nat \<Rightarrow> nat \<Rightarrow> bool" where
  "Less ml i j = Before (Date (ml ! i)) (Date (ml ! j))"

text \<open>
  \<^verbatim>\<open>sort.Sort\<close> of the standard library reaches the data only through \<^verbatim>\<open>Len\<close>,
  \<^verbatim>\<open>Less\<close> and \<^verbatim>\<open>Swap\<close>, with indices below \<^verbatim>\<open>Len\<close>. On a slice of at most 12
  elements it is the insertion sort below (\<^verbatim>\<open>insertionSort(data, a, b)\<close> of package
  sort); on a longer slice it is a pattern-defeating quicksort, with this insertion sort
  and a heap sort inside, that may place units of equal date in another order, which the
  library leaves open. The model is the insertion sort at every length.
  \<^verbatim>\<open>
  for i := a + 1; i < b; i++ {
      for j := i; j > a && data.Less(j, j-1); j-- {
          data.Swap(j, j-1)
      }
  }
  \<close>
\<close>

fun insertionInner :: "'s MigrationList \<Rightarrow> nat \<Rightarrow> nat \<Rightarrow> 's MigrationList" where
  "insertionInner data a j =
     (if j > a \<and> Less data j (j - 1) then insertionInner (Swap data j (j - 1)) a (j - 1)
      else data)"

declare insertionInner.simps [simp del]

function insertionOuter :: "'s MigrationList \<Rightarrow> nat \<Rightarrow> nat \<Rightarrow> nat \<Rightarrow> 's MigrationList" where
  "insertionOuter data a b i =
     (if i < b then insertionOuter (insertionInner data a i) a b (i + 1) else data)"
  by pat_completeness auto
termination
  by (relation "measure (\<lambda>(data, a, b, i). b - i)") auto

declare insertionOuter.simps [simp del]

definition insertionSort :: "'s MigrationList \<Rightarrow> nat \<Rightarrow> nat \<Rightarrow> 's MigrationList" where
  "insertionSort data a b = insertionOuter data a b (a + 1)"

definition Sort :: "'s MigrationList \<Rightarrow> 's MigrationList" where
  "Sort data = (let n = Len data in if n \<le> 1 then data else insertionSort data 0 n)"

subsection \<open>sortMigrations\<close>

text \<open>
  The runners use the value of the result only, so for them \<^verbatim>\<open>sortMigrations\<close> is a
  function from the elements of \<^verbatim>\<open>migs\<close> to the elements of \<^verbatim>\<open>sorted\<close>.
\<close>

definition sortMigrations :: "'s MigrationList \<Rightarrow> 's MigrationList" where
  "sortMigrations migs = (let sorted' = migs in Sort sorted')"

text \<open>
  The same function with the slices' backing arrays made explicit: the memory is the list
  of the arrays allocated so far, and a slice is the index of its array. \<^verbatim>\<open>make\<close> and
  \<^verbatim>\<open>copy\<close> allocate a new array holding the elements of \<^verbatim>\<open>migs\<close>;
  \<^verbatim>\<open>sort.Sort(sorted)\<close> swaps elements of that array in place.
\<close>

type_synonym 's memory = "'s MigrationList list"

definition sortMigrationsMem :: "'s memory \<Rightarrow> nat \<Rightarrow> nat \<times> 's memory" where
  "sortMigrationsMem mem migs =
     (let sorted' = length mem;
          mem1 = mem @ [mem ! migs];
          mem2 = mem1[sorted' := Sort (mem1 ! sorted')]
      in (sorted', mem2))"

subsection \<open>needsToRun\<close>

text \<open>
  The loop \<^verbatim>\<open>for hasRunRes.Next() { var name string; hasRunRes.Scan(&name); hasRun[name] = true }\<close>.
  \<^verbatim>\<open>Next\<close> returns false at the end of the rows and also when the cursor fails (the
  error stays in the cursor, and the source does not ask for it). What \<^verbatim>\<open>Scan\<close> returns
  is dropped; a \<^verbatim>\<open>Scan\<close> that fails leaves \<^verbatim>\<open>name\<close> at its zero value, the empty string.
\<close>

fun scanRows ::
  "'s world \<Rightarrow> string list \<Rightarrow> (string \<rightharpoonup> bool) \<Rightarrow> (string \<rightharpoonup> bool) \<times> 's world" where
  "scanRows w rows hasRun =
     (case respond w of
        (Some err, w1) \<Rightarrow> (hasRun, emit (RowsNext (Some err)) w1)
      | (None, w1) \<Rightarrow>
          (case rows of
             [] \<Rightarrow> (hasRun, emit (RowsNext None) w1)
           | row # rest \<Rightarrow>
               (case respond (emit (RowsNext None) w1) of
                  (Some err, w2) \<Rightarrow>
                    scanRows (emit (RowsScan (Some err)) w2) rest (hasRun([] \<mapsto> True))
                | (None, w2) \<Rightarrow>
                    scanRows (emit (RowsScan None) w2) rest (hasRun(row \<mapsto> True)))))"

declare scanRows.simps [simp del]

text \<open>The loop \<^verbatim>\<open>for _, migration := range migs\<close> that appends to \<^verbatim>\<open>toRun\<close>.\<close>

fun toRunLoop ::
  "(string \<rightharpoonup> bool) \<Rightarrow> 's MigrationList \<Rightarrow> 's MigrationList \<Rightarrow> 's MigrationList" where
  "toRunLoop hasRun [] toRun = toRun"
| "toRunLoop hasRun (migration # migs) toRun =
     (let name = dbName migration
      in if hasRun name = None then toRunLoop hasRun migs (toRun @ [migration])
         else toRunLoop hasRun migs toRun)"

definition needsToRun ::
  "'s world \<Rightarrow> 's MigrationList \<Rightarrow> (error + 's MigrationList) \<times> 's world" where
  "needsToRun w migs =
     (let toRun = []; hasRun = Map.empty
      in case querySelect w of
           (Inl err, w1) \<Rightarrow> (Inl err, w1)
         | (Inr rows, w1) \<Rightarrow>
             (case scanRows w1 rows hasRun of
                (hasRun, w2) \<Rightarrow> (Inr (toRunLoop hasRun migs toRun), emit RowsClose w2)))"

subsection \<open>migrateUpN and migrateDownN\<close>

text \<open>
  A runner returns an error or nil, or panics when it indexes \<^verbatim>\<open>sorted\<close> out of range
  (the transaction is then left open and never committed). The logger is part of the
  record of calls.
\<close>

datatype outcome = Returned "error option" | Panicked

function upLoop ::
  "'s world \<Rightarrow> 's db \<Rightarrow> 's MigrationList \<Rightarrow> int \<Rightarrow> int \<Rightarrow> outcome \<times> 's world" where
  "upLoop w tx sorted' n i =
     (if i < n then
        (if i < 0 \<or> int (length sorted') \<le> i then (Panicked, w)
         else
           (let name = dbName (sorted' ! nat i) in
            case Up (sorted' ! nat i) tx of
              (Some err, tx1) \<Rightarrow>
                (Returned (Some (Error (''Failed to up '' @ name @ '': '' @ message err))),
                 txRollback (emit (CalledUp (Name (sorted' ! nat i)) (Some err)) w))
            | (None, tx1) \<Rightarrow>
                (case execInsert (emit (CalledUp (Name (sorted' ! nat i)) None) w) tx1 name of
                   (Some err, tx2, w2) \<Rightarrow> (Returned (Some err), txRollback w2)
                 | (None, tx2, w2) \<Rightarrow>
                     upLoop
                       (emit (LogInfo []
                          (''Up'd '' @ name @ '' ('' @ itoa (i + 1) @ ''/'' @ itoa n @ '')'')) w2)
                       tx2 sorted' n (i + 1))))
      else
        (case txCommit w tx of (err, w1) \<Rightarrow> (Returned err, w1)))"
  by pat_completeness auto
termination
  by (relation "measure (\<lambda>(w, tx, sorted', n, i). nat (n - i))") auto

declare upLoop.simps [simp del]

definition migrateUpN :: "'s world \<Rightarrow> 's MigrationList \<Rightarrow> int \<Rightarrow> outcome \<times> 's world" where
  "migrateUpN w migs n =
     (case txBegin w of
        (Inl err, w1) \<Rightarrow> (Returned (Some err), w1)
      | (Inr tx, w1) \<Rightarrow> (let sorted' = sortMigrations migs in upLoop w1 tx sorted' n 0))"

function downLoop ::
  "'s world \<Rightarrow> 's db \<Rightarrow> 's MigrationList \<Rightarrow> int \<Rightarrow> int \<Rightarrow> outcome \<times> 's world" where
  "downLoop w tx sorted' n i =
     (if i > wrap64 (int (length sorted') - 1 - n) then
        (if i < 0 \<or> int (length sorted') \<le> i then (Panicked, w)
         else
           (let name = dbName (sorted' ! nat i) in
            case Down (sorted' ! nat i) tx of
              (Some err, tx1) \<Rightarrow>
                (Returned (Some (Error (''Failed to down '' @ name @ '': '' @ message err))),
                 txRollback (emit (CalledDown (Name (sorted' ! nat i)) (Some err)) w))
            | (None, tx1) \<Rightarrow>
                (case execDelete (emit (CalledDown (Name (sorted' ! nat i)) None) w) tx1 name of
                   (Some err, tx2, w2) \<Rightarrow> (Returned (Some err), txRollback w2)
                 | (None, tx2, w2) \<Rightarrow>
                     downLoop
                       (emit (LogInfo []
                          (''Down'd '' @ name @ '' ('' @ itoa i @ ''/'' @ itoa n @ '')'')) w2)
                       tx2 sorted' n (i - 1))))
      else
        (case txCommit w tx of (err, w1) \<Rightarrow> (Returned err, w1)))"
  by pat_completeness auto
termination
  by (relation "measure (\<lambda>(w, tx, sorted', n, i).
        nat (i - wrap64 (int (length sorted') - 1 - n)))") auto

declare downLoop.simps [simp del]

definition migrateDownN :: "'s world \<Rightarrow> 's MigrationList \<Rightarrow> int \<Rightarrow> outcome \<times> 's world" where
  "migrateDownN w migs n =
     (case txBegin w of
        (Inl err, w1) \<Rightarrow> (Returned (Some err), w1)
      | (Inr tx, w1) \<Rightarrow>
          (let sorted' = sortMigrations migs
           in downLoop w1 tx sorted' n (int (length sorted') - 1)))"

subsection \<open>checkMigrationTable and Migrate\<close>

definition checkMigrationTable :: "'s world \<Rightarrow> error option \<times> 's world" where
  "checkMigrationTable w = (case execCreate w of (err, w1) \<Rightarrow> (err, w1))"

definition Migrate :: "'s world \<Rightarrow> 's MigrationList \<Rightarrow> outcome \<times> 's world" where
  "Migrate w migs =
     (case checkMigrationTable w of
        (Some err, w1) \<Rightarrow> (Returned (Some err), w1)
      | (None, w1) \<Rightarrow>
          (case needsToRun w1 migs of
             (Inl err, w2) \<Rightarrow> (Returned (Some err), w2)
           | (Inr toRun, w2) \<Rightarrow>
               migrateUpN
                 (emit (LogInfo [(''n'', int (length toRun))] ''Running migrations...'') w2)
                 toRun (int (length toRun))))"

section \<open>Vocabulary of the properties\<close>

text \<open>Kinds of recorded calls.\<close>

fun isUp :: "event \<Rightarrow> bool" where
  "isUp (CalledUp nm r) = True"
| "isUp ev = False"

fun isInsert :: "event \<Rightarrow> bool" where
  "isInsert (ExecInsert k r) = True"
| "isInsert ev = False"

fun failed :: "event \<Rightarrow> bool" where
  "failed (ExecCreate r) = (r \<noteq> None)"
| "failed (QuerySelect r) = (r \<noteq> None)"
| "failed (RowsNext r) = (r \<noteq> None)"
| "failed (RowsScan r) = (r \<noteq> None)"
| "failed (TxBegin r) = (r \<noteq> None)"
| "failed (CalledUp nm r) = (r \<noteq> None)"
| "failed (CalledDown nm r) = (r \<noteq> None)"
| "failed (ExecInsert k r) = (r \<noteq> None)"
| "failed (ExecDelete k r) = (r \<noteq> None)"
| "failed (TxCommit r) = (r \<noteq> None)"
| "failed ev = False"

text \<open>A failure while the cursor over the tracking table is read.\<close>

fun readFault :: "event \<Rightarrow> bool" where
  "readFault (RowsNext r) = (r \<noteq> None)"
| "readFault (RowsScan r) = (r \<noteq> None)"
| "readFault ev = False"

text \<open>An increment that leaves the tracking table as it finds it.\<close>

definition keepsTracking :: "'s MigrationIncrement \<Rightarrow> bool" where
  "keepsTracking inc = (\<forall>tx. tracking (snd (inc tx)) = tracking tx)"

text \<open>The order of \<^verbatim>\<open>Date()\<close>: the first unit is not dated after the second.\<close>

definition notAfter :: "'s SimpleMigration \<Rightarrow> 's SimpleMigration \<Rightarrow> bool" where
  "notAfter x y = (\<not> Before (Date y) (Date x))"

text \<open>
  The calls of a step that went well, and the calls after which a runner stops: the commit
  after the loop, nothing at a panic, or the failing call of a step and the rollback.
\<close>

definition stepEvent :: "'s MigrationList \<Rightarrow> event \<Rightarrow> bool" where
  "stepEvent s ev =
     ((\<exists>m\<in>set s. ev = CalledUp (Name m) None \<or> ev = ExecInsert (dbName m) None
          \<or> ev = CalledDown (Name m) None \<or> ev = ExecDelete (dbName m) None)
      \<or> (\<exists>t. ev = LogInfo [] t))"

definition upTail ::
  "'s MigrationList \<Rightarrow> int \<Rightarrow> int \<Rightarrow> outcome \<Rightarrow> event list \<Rightarrow> bool" where
  "upTail s n i r tail =
     ((\<exists>res. r = Returned res \<and> tail = [TxCommit res] \<and> (n \<le> int (length s) \<or> n \<le> i))
    \<or> (r = Panicked \<and> tail = [] \<and> int (length s) < n)
    \<or> (\<exists>m\<in>set s. \<exists>err.
          r = Returned (Some (Error (''Failed to up '' @ dbName m @ '': '' @ message err)))
          \<and> tail = [CalledUp (Name m) (Some err), TxRollback])
    \<or> (\<exists>m\<in>set s. \<exists>err.
          r = Returned (Some err)
          \<and> tail = [CalledUp (Name m) None, ExecInsert (dbName m) (Some err), TxRollback]))"

definition downTail ::
  "'s MigrationList \<Rightarrow> int \<Rightarrow> outcome \<Rightarrow> event list \<Rightarrow> bool" where
  "downTail s n r tail =
     ((\<exists>res. r = Returned res \<and> tail = [TxCommit res]
          \<and> - 1 \<le> wrap64 (int (length s) - 1 - n))
    \<or> (r = Panicked \<and> tail = [] \<and> wrap64 (int (length s) - 1 - n) < - 1)
    \<or> (\<exists>m\<in>set s. \<exists>err.
          r = Returned (Some (Error (''Failed to down '' @ dbName m @ '': '' @ message err)))
          \<and> tail = [CalledDown (Name m) (Some err), TxRollback])
    \<or> (\<exists>m\<in>set s. \<exists>err.
          r = Returned (Some err)
          \<and> tail = [CalledDown (Name m) None, ExecDelete (dbName m) (Some err), TxRollback]))"

text \<open>The names that the cursor loop of \<^verbatim>\<open>needsToRun\<close> puts into \<^verbatim>\<open>hasRun\<close>.\<close>

definition hasRunRead :: "'s world \<Rightarrow> string set" where
  "hasRunRead w =
     (case querySelect w of
        (Inl err, w1) \<Rightarrow> {}
      | (Inr rows, w1) \<Rightarrow> dom (fst (scanRows w1 rows Map.empty)))"

fun isCursor :: "event \<Rightarrow> bool" where
  "isCursor (RowsNext r) = True"
| "isCursor (RowsScan r) = True"
| "isCursor ev = False"

text \<open>The rows of the tracking table: none while the table does not exist.\<close>

definition rowsOf :: "'s db \<Rightarrow> string list" where
  "rowsOf d = (case tracking d of None \<Rightarrow> [] | Some rows \<Rightarrow> rows)"

section \<open>Inputs of the examples\<close>

text \<open>
  The date, the names and the tracked row are those of the repository's tests
  (2020-09-10T08:43:00+10:00 is second 1599691380); the increments count in the schema.
\<close>

definition exDate :: time where
  "exDate = \<lparr>sec = 1599691380, nsec = 0\<rparr>"

definition exUp :: "nat MigrationIncrement" where
  "exUp tx = (None, tx\<lparr>schema := schema tx + 1\<rparr>)"

definition exA :: "nat SimpleMigration" where
  "exA = NewSimpleMigration ''a'' exDate (Some exUp) None"

definition exB :: "nat SimpleMigration" where
  "exB = NewSimpleMigration ''b'' exDate (Some exUp) None"

text \<open>A name of 589 bytes: with the ten digits and the underscore, a key of 600.\<close>

definition exLong :: "nat SimpleMigration" where
  "exLong = NewSimpleMigration (replicate 589 CHR ''x'') exDate None None"

definition exWorld :: "nat world" where
  "exWorld = \<lparr>database = \<lparr>tracking = Some [''1599691380_a''], schema = 0\<rparr>,
              script = [], trace = []\<rparr>"

text \<open>Two units of distinct dates, the later one first, as in \<^verbatim>\<open>TestSortMigrations\<close>.\<close>

definition exLater :: "nat SimpleMigration" where
  "exLater = NewSimpleMigration ''a'' \<lparr>sec = 1599691385, nsec = 0\<rparr> None None"

definition exNow :: "nat SimpleMigration" where
  "exNow = NewSimpleMigration ''b'' exDate None None"

text \<open>
  A unit whose increments change the schema and then fail, with the error of
  \<^verbatim>\<open>TestMigrateRollback\<close>.
\<close>

definition exFail :: "nat MigrationIncrement" where
  "exFail tx =
     (Some (Error ''something like a foreign or similar''), tx\<lparr>schema := schema tx + 1\<rparr>)"

definition exBad :: "nat SimpleMigration" where
  "exBad = NewSimpleMigration ''c'' \<lparr>sec = 1599691385, nsec = 0\<rparr> (Some exFail) (Some exFail)"

text \<open>
  Drivers that fail: at the first statement after \<^verbatim>\<open>Begin\<close>; at \<^verbatim>\<open>Begin\<close>; at the
  \<^verbatim>\<open>Scan\<close> of the first row (after \<^verbatim>\<open>Query\<close> and \<^verbatim>\<open>Next\<close>); at the first \<^verbatim>\<open>Next\<close>
  (after \<^verbatim>\<open>Query\<close>).
\<close>

definition exInsertFails :: "nat world" where
  "exInsertFails = exWorld\<lparr>script := [None, Some (Error ''connection reset'')]\<rparr>"


definition exScanFails :: "nat world" where
  "exScanFails = exWorld\<lparr>script := [None, None, Some (Error ''sql: Scan error'')]\<rparr>"

definition exCursorFails :: "nat world" where
  "exCursorFails = exWorld\<lparr>script := [None, Some (Error ''driver: bad connection'')]\<rparr>"

text \<open>
  A database without the tracking table, and two units of the same date whose names differ
  only after byte 489, so that their composed keys differ only after byte 500.
\<close>

definition exEmpty :: "nat world" where
  "exEmpty = \<lparr>database = \<lparr>tracking = None, schema = 0\<rparr>, script = [], trace = []\<rparr>"

definition exFirst :: "nat SimpleMigration" where
  "exFirst = NewSimpleMigration (replicate 489 CHR ''x'' @ ''_first'') exDate (Some exUp) None"

definition exSecond :: "nat SimpleMigration" where
  "exSecond = NewSimpleMigration (replicate 489 CHR ''x'' @ ''_second'') exDate (Some exUp) None"

text \<open>
  A driver that fails at its first call, and a unit whose \<^verbatim>\<open>Up\<close> increment empties the
  tracking table (\<^verbatim>\<open>DELETE FROM migrations\<close> on the transaction it is given).
\<close>

definition exQueryFails :: "nat world" where
  "exQueryFails = exWorld\<lparr>script := [Some (Error ''driver: bad connection'')]\<rparr>"

definition exWipeUp :: "nat MigrationIncrement" where
  "exWipeUp tx = (None, tx\<lparr>tracking := Some []\<rparr>)"

definition exWipe :: "nat SimpleMigration" where
  "exWipe = NewSimpleMigration ''w'' \<lparr>sec = 1599691390, nsec = 0\<rparr> (Some exWipeUp) None"

section \<open>Properties\<close>

subsection \<open>Decimal digits\<close>

lemma digits_nonempty: "digits n \<noteq> []"
  by (subst digits.simps) simp

subsection \<open>The bound of the down loop\<close>






subsection \<open>The order of dates and sort.Sort\<close>

lemma notAfter_trans: "notAfter x y \<Longrightarrow> notAfter y z \<Longrightarrow> notAfter x z"
  by (auto simp: notAfter_def Before_def)

lemma notAfter_total: "\<not> notAfter x y \<Longrightarrow> notAfter y x"
  by (auto simp: notAfter_def Before_def)

lemma Before_notAfter: "Before (Date x) (Date y) \<Longrightarrow> notAfter x y"
  by (auto simp: notAfter_def Before_def)

lemma notAfter_distinct_Before:
  "notAfter x y \<Longrightarrow> Date x \<noteq> Date y \<Longrightarrow> Before (Date x) (Date y)"
  by (cases "Date x"; cases "Date y") (auto simp: notAfter_def Before_def)

lemma length_Swap [simp]: "length (Swap ml i j) = length ml"
  by (simp add: Swap_def)

lemma mset_Swap: "i < length ml \<Longrightarrow> j < length ml \<Longrightarrow> mset (Swap ml i j) = mset ml"
  by (simp add: Swap_def mset_swap)

lemma length_insertionInner [simp]: "length (insertionInner data a j) = length data"
  by (induction data a j rule: insertionInner.induct) (subst insertionInner.simps, simp)

lemma mset_insertionInner:
  "j < length data \<Longrightarrow> mset (insertionInner data a j) = mset data"
proof (induction data a j rule: insertionInner.induct)
  case (1 data a j)
  show ?case
  proof (cases "j > a \<and> Less data j (j - 1)")
    case True
    with 1 have "mset (insertionInner (Swap data j (j - 1)) a (j - 1)) = mset (Swap data j (j - 1))"
      by simp
    also have "\<dots> = mset data" using 1(2) by (simp add: mset_Swap)
    finally show ?thesis using True by (subst insertionInner.simps) simp
  next
    case False
    then show ?thesis by (subst insertionInner.simps) auto
  qed
qed

lemma insertionInner_sorted:
  assumes "j \<le> k" "k < length data"
      and "\<forall>p q. a \<le> p \<and> p < q \<and> q \<le> k \<and> p \<noteq> j \<and> q \<noteq> j \<longrightarrow> notAfter (data ! p) (data ! q)"
      and "\<forall>q. j < q \<and> q \<le> k \<longrightarrow> notAfter (data ! j) (data ! q)"
      and "a \<le> j"
    shows "\<forall>p q. a \<le> p \<and> p < q \<and> q \<le> k \<longrightarrow>
             notAfter (insertionInner data a j ! p) (insertionInner data a j ! q)"
  using assms
proof (induction data a j rule: insertionInner.induct)
  case (1 data a j)
  show ?case
  proof (cases "j > a \<and> Less data j (j - 1)")
    case swap: True
    define d where "d = Swap data j (j - 1)"
    have jk: "j < length data" "j - 1 < length data" "j - 1 < j" "a \<le> j - 1"
      using 1 swap by auto
    have dj: "d ! j = data ! (j - 1)" and dj1: "d ! (j - 1) = data ! j"
      and dr: "\<And>r. r \<noteq> j \<Longrightarrow> r \<noteq> j - 1 \<Longrightarrow> d ! r = data ! r"
      using jk by (auto simp: d_def Swap_def)
    have lt: "notAfter (data ! j) (data ! (j - 1))"
      using swap by (simp add: Less_def Before_notAfter)
    have A: "\<forall>p q. a \<le> p \<and> p < q \<and> q \<le> k \<and> p \<noteq> j - 1 \<and> q \<noteq> j - 1 \<longrightarrow> notAfter (d ! p) (d ! q)"
    proof (intro allI impI)
      fix p q assume h: "a \<le> p \<and> p < q \<and> q \<le> k \<and> p \<noteq> j - 1 \<and> q \<noteq> j - 1"
      show "notAfter (d ! p) (d ! q)"
      proof (cases "q = j")
        case True
        then have "p < j - 1" using h by auto
        then have "notAfter (data ! p) (data ! (j - 1))" using 1(4) h jk True by auto
        then show ?thesis using True h dj dr by auto
      next
        case qj: False
        show ?thesis
        proof (cases "p = j")
          case True
          then have "a \<le> j - 1 \<and> j - 1 < q \<and> q \<le> k \<and> j - 1 \<noteq> j \<and> q \<noteq> j"
            using h jk qj by auto
          then have "notAfter (data ! (j - 1)) (data ! q)" using 1(4) by blast
          then show ?thesis using True h dj dr qj by auto
        next
          case False
          then show ?thesis using 1(4) h dr qj by auto
        qed
      qed
    qed
    have B: "\<forall>q. j - 1 < q \<and> q \<le> k \<longrightarrow> notAfter (d ! (j - 1)) (d ! q)"
    proof (intro allI impI)
      fix q assume h: "j - 1 < q \<and> q \<le> k"
      show "notAfter (d ! (j - 1)) (d ! q)"
      proof (cases "q = j")
        case True
        then show ?thesis using dj dj1 lt by simp
      next
        case False
        then have "j < q" using h by auto
        then show ?thesis using 1(5) h dj1 dr False by auto
      qed
    qed
    have "\<forall>p q. a \<le> p \<and> p < q \<and> q \<le> k \<longrightarrow>
             notAfter (insertionInner d a (j - 1) ! p) (insertionInner d a (j - 1) ! q)"
      using 1(1)[OF swap] A B 1(2,3) swap jk unfolding d_def by auto
    then show ?thesis using swap unfolding d_def by (subst (1 2) insertionInner.simps) simp
  next
    case False
    have res: "insertionInner data a j = data"
      using False by (subst insertionInner.simps) auto
    show ?thesis unfolding res
    proof (intro allI impI)
      fix p q assume h: "a \<le> p \<and> p < q \<and> q \<le> k"
      show "notAfter (data ! p) (data ! q)"
      proof (cases "q = j")
        case True
        show ?thesis
        proof (cases "p = j - 1")
          case pj: True
          then have "\<not> Less data j (j - 1)" using False h True by auto
          then show ?thesis using True pj by (simp add: Less_def notAfter_def)
        next
          case pj: False
          then have p: "p < j - 1" using h True by auto
          have "j > a" using h True by auto
          then have nl: "\<not> Less data j (j - 1)" using False by auto
          have "a \<le> p \<and> p < j - 1 \<and> j - 1 \<le> k \<and> p \<noteq> j \<and> j - 1 \<noteq> j"
            using p h True by auto
          then have "notAfter (data ! p) (data ! (j - 1))"
            using 1(4) by blast
          moreover have "notAfter (data ! (j - 1)) (data ! j)"
            using nl by (simp add: Less_def notAfter_def)
          ultimately show ?thesis using True notAfter_trans by blast
        qed
      next
        case qj: False
        show ?thesis
        proof (cases "p = j")
          case True
          then show ?thesis using 1(5) h by auto
        next
          case False
          then show ?thesis using 1(4) h qj by auto
        qed
      qed
    qed
  qed
qed

lemma length_insertionOuter [simp]: "length (insertionOuter data a b i) = length data"
  by (induction data a b i rule: insertionOuter.induct) (subst insertionOuter.simps, simp)

lemma mset_insertionOuter:
  "b \<le> length data \<Longrightarrow> mset (insertionOuter data a b i) = mset data"
proof (induction data a b i rule: insertionOuter.induct)
  case (1 data a b i)
  then show ?case
    by (subst insertionOuter.simps) (simp add: mset_insertionInner)
qed

lemma insertionOuter_sorted:
  assumes "b \<le> length data" "a < i"
      and "\<forall>p q. a \<le> p \<and> p < q \<and> q < i \<longrightarrow> notAfter (data ! p) (data ! q)"
    shows "\<forall>p q. a \<le> p \<and> p < q \<and> q < b \<longrightarrow>
             notAfter (insertionOuter data a b i ! p) (insertionOuter data a b i ! q)"
  using assms
proof (induction data a b i rule: insertionOuter.induct)
  case (1 data a b i)
  show ?case
  proof (cases "i < b")
    case True
    have "\<forall>p q. a \<le> p \<and> p < q \<and> q \<le> i \<longrightarrow>
             notAfter (insertionInner data a i ! p) (insertionInner data a i ! q)"
      using 1(2,3,4) True by (intro insertionInner_sorted) auto
    then have "\<forall>p q. a \<le> p \<and> p < q \<and> q < i + 1 \<longrightarrow>
             notAfter (insertionInner data a i ! p) (insertionInner data a i ! q)"
      by auto
    with 1(1)[OF True] 1(2,3) True show ?thesis
      by (subst (1 2) insertionOuter.simps) simp
  next
    case False
    then show ?thesis using 1(4) by (subst (1 2) insertionOuter.simps) auto
  qed
qed

lemma length_Sort [simp]: "length (Sort data) = length data"
  by (simp add: Sort_def insertionSort_def Let_def)

lemma mset_Sort: "mset (Sort data) = mset data"
  by (simp add: Sort_def insertionSort_def Let_def Len_def mset_insertionOuter)

lemma set_Sort [simp]: "set (Sort data) = set data"
  using mset_Sort by (metis set_mset_mset)

lemma sorted_Sort: "sorted_wrt notAfter (Sort data)"
proof -
  have "\<forall>p q. 0 \<le> p \<and> p < q \<and> q < length data \<longrightarrow> notAfter (Sort data ! p) (Sort data ! q)"
  proof (cases "Len data \<le> 1")
    case True
    then show ?thesis by (auto simp: Sort_def Len_def)
  next
    case False
    have "\<forall>p q. 0 \<le> p \<and> p < q \<and> q < length data \<longrightarrow>
             notAfter (insertionOuter data 0 (length data) (0 + 1) ! p)
                      (insertionOuter data 0 (length data) (0 + 1) ! q)"
      by (intro insertionOuter_sorted) auto
    then show ?thesis using False by (simp add: Sort_def insertionSort_def Len_def)
  qed
  then show ?thesis by (simp add: sorted_wrt_iff_nth_less)
qed

lemma sorted_Sort_strict:
  assumes "distinct (map Date data)"
  shows "sorted_wrt (\<lambda>x y. Before (Date x) (Date y)) (Sort data)"
proof -
  have "mset (map Date (Sort data)) = mset (map Date data)"
    by (simp add: mset_Sort)
  then have d: "distinct (map Date (Sort data))"
    using assms by (metis mset_eq_imp_distinct_iff)
  show ?thesis unfolding sorted_wrt_iff_nth_less
  proof (intro allI impI)
    fix i j assume h: "i < j" "j < length (Sort data)"
    then have "notAfter (Sort data ! i) (Sort data ! j)"
      using sorted_Sort[of data] by (simp add: sorted_wrt_iff_nth_less)
    moreover have "Date (Sort data ! i) \<noteq> Date (Sort data ! j)"
      using d h by (auto simp: distinct_conv_nth)
    ultimately show "Before (Date (Sort data ! i)) (Date (Sort data ! j))"
      by (rule notAfter_distinct_Before)
  qed
qed

subsection \<open>The driver calls\<close>

lemma respond_fields [simp]:
  "trace (snd (respond w)) = trace w" "database (snd (respond w)) = database w"
  by (auto simp: respond_def split: list.splits)

lemma respond_eq:
  "respond w = (r, w1) \<Longrightarrow> trace w1 = trace w \<and> database w1 = database w"
  by (auto simp: respond_def split: list.splits)

lemma emit_fields [simp]:
  "trace (emit ev w) = trace w @ [ev]" "database (emit ev w) = database w"
  "script (emit ev w) = script w"
  by (simp_all add: emit_def)

lemma txRollback_fields [simp]:
  "trace (txRollback w) = trace w @ [TxRollback]" "database (txRollback w) = database w"
  by (simp_all add: txRollback_def)

lemma execInsert_eq:
  assumes "execInsert w tx key = (res, tx', w')"
  shows "trace w' = trace w @ [ExecInsert key res]" "database w' = database w"
    "res = None \<Longrightarrow> \<exists>rows. tracking tx = Some rows \<and> tx' = tx\<lparr>tracking := Some (rows @ [key])\<rparr>"
  using assms
  by (auto simp: execInsert_def dest: respond_eq split: prod.splits option.splits)

lemma execDelete_eq:
  assumes "execDelete w tx key = (res, tx', w')"
  shows "trace w' = trace w @ [ExecDelete key res]" "database w' = database w"
    "res = None \<Longrightarrow> \<exists>rows. tracking tx = Some rows \<and> tx' = tx\<lparr>tracking := Some (filter (\<lambda>r. r \<noteq> key) rows)\<rparr>"
  using assms
  by (auto simp: execDelete_def dest: respond_eq split: prod.splits option.splits)

lemma txCommit_eq:
  assumes "txCommit w tx = (res, w')"
  shows "trace w' = trace w @ [TxCommit res]"
    "res = None \<Longrightarrow> database w' = tx" "res \<noteq> None \<Longrightarrow> database w' = database w"
  using assms
  by (auto simp: txCommit_def dest: respond_eq split: prod.splits option.splits)

lemma txBegin_eq:
  assumes "txBegin w = (res, w')"
  shows "database w' = database w"
    "\<And>err. res = Inl err \<Longrightarrow> trace w' = trace w @ [TxBegin (Some err)]"
    "\<And>tx. res = Inr tx \<Longrightarrow> trace w' = trace w @ [TxBegin None] \<and> tx = database w"
  using assms
  by (auto simp: txBegin_def dest: respond_eq split: prod.splits option.splits)

subsection \<open>The loops of the runners\<close>

lemma upLoop_rule:
  assumes finish: "\<And>w tx i. \<not> i < n \<Longrightarrow>
            P w tx i (case txCommit w tx of (err, w1) \<Rightarrow> (Returned err, w1))"
    and panic: "\<And>w tx i. i < n \<Longrightarrow> i < 0 \<or> int (length s) \<le> i \<Longrightarrow> P w tx i (Panicked, w)"
    and upfail: "\<And>w tx i err tx1. i < n \<Longrightarrow> 0 \<le> i \<Longrightarrow> i < int (length s) \<Longrightarrow>
            Up (s ! nat i) tx = (Some err, tx1) \<Longrightarrow>
            P w tx i
              (Returned (Some (Error (''Failed to up '' @ dbName (s ! nat i) @ '': '' @ message err))),
               txRollback (emit (CalledUp (Name (s ! nat i)) (Some err)) w))"
    and insfail: "\<And>w tx i tx1 err tx2 w2. i < n \<Longrightarrow> 0 \<le> i \<Longrightarrow> i < int (length s) \<Longrightarrow>
            Up (s ! nat i) tx = (None, tx1) \<Longrightarrow>
            execInsert (emit (CalledUp (Name (s ! nat i)) None) w) tx1 (dbName (s ! nat i))
              = (Some err, tx2, w2) \<Longrightarrow>
            P w tx i (Returned (Some err), txRollback w2)"
    and step: "\<And>w tx i tx1 tx2 w2. i < n \<Longrightarrow> 0 \<le> i \<Longrightarrow> i < int (length s) \<Longrightarrow>
            Up (s ! nat i) tx = (None, tx1) \<Longrightarrow>
            execInsert (emit (CalledUp (Name (s ! nat i)) None) w) tx1 (dbName (s ! nat i))
              = (None, tx2, w2) \<Longrightarrow>
            P (emit (LogInfo [] (''Up'd '' @ dbName (s ! nat i) @ '' ('' @ itoa (i + 1) @ ''/''
                 @ itoa n @ '')'')) w2) tx2 (i + 1)
              (upLoop (emit (LogInfo [] (''Up'd '' @ dbName (s ! nat i) @ '' ('' @ itoa (i + 1)
                 @ ''/'' @ itoa n @ '')'')) w2) tx2 s n (i + 1)) \<Longrightarrow>
            P w tx i
              (upLoop (emit (LogInfo [] (''Up'd '' @ dbName (s ! nat i) @ '' ('' @ itoa (i + 1)
                 @ ''/'' @ itoa n @ '')'')) w2) tx2 s n (i + 1))"
  shows "P w tx i (upLoop w tx s n i)"
proof (induction "nat (n - i)" arbitrary: w tx i)
  case 0
  then have "\<not> i < n" by simp
  then show ?case using finish[of i w tx] by (subst upLoop.simps) simp
next
  case (Suc k)
  then have lt: "i < n" by simp
  show ?case
  proof (cases "i < 0 \<or> int (length s) \<le> i")
    case True
    then show ?thesis using panic[OF lt, of w tx] lt by (subst upLoop.simps) simp
  next
    case False
    then have rng: "0 \<le> i" "i < int (length s)" by auto
    obtain r1 tx1 where u: "Up (s ! nat i) tx = (r1, tx1)" by (cases "Up (s ! nat i) tx")
    show ?thesis
    proof (cases r1)
      case (Some err)
      then show ?thesis using upfail[OF lt rng, of tx err tx1 w] u lt rng
        by (subst upLoop.simps) simp
    next
      case None
      obtain r2 tx2 w2 where e:
        "execInsert (emit (CalledUp (Name (s ! nat i)) None) w) tx1 (dbName (s ! nat i)) = (r2, tx2, w2)"
        by (metis prod_cases3)
      show ?thesis
      proof (cases r2)
        case (Some err)
        then show ?thesis using insfail[OF lt rng, of tx tx1 w err tx2 w2] u None e lt rng
          by (subst upLoop.simps) simp
      next
        case n2: None
        have k: "k = nat (n - (i + 1))" using Suc(2) by simp
        show ?thesis
          using step[OF lt rng, of tx tx1 w tx2 w2, OF _ _ Suc(1)[OF k]] u None e n2 lt rng
          by (subst upLoop.simps) simp
      qed
    qed
  qed
qed

lemma upLoop_shape_aux:
  "0 \<le> i \<longrightarrow>
     (\<exists>steps tail. trace (snd (upLoop w tx s n i)) = trace w @ steps @ tail
        \<and> (\<forall>ev\<in>set steps. stepEvent s ev)
        \<and> upTail s n i (fst (upLoop w tx s n i)) tail)
     \<and> (fst (upLoop w tx s n i) \<noteq> Returned None \<longrightarrow>
          database (snd (upLoop w tx s n i)) = database w)"
proof (rule upLoop_rule[where P = "\<lambda>w tx i res. 0 \<le> i \<longrightarrow>
     (\<exists>steps tail. trace (snd res) = trace w @ steps @ tail
        \<and> (\<forall>ev\<in>set steps. stepEvent s ev)
        \<and> upTail s n i (fst res) tail)
     \<and> (fst res \<noteq> Returned None \<longrightarrow> database (snd res) = database w)"], goal_cases)
  case (1 w tx i)
  obtain res w1 where c: "txCommit w tx = (res, w1)" by (cases "txCommit w tx")
  have "trace w1 = trace w @ [] @ [TxCommit res]" using txCommit_eq(1)[OF c] by simp
  moreover have "upTail s n i (Returned res) [TxCommit res]" using 1 by (simp add: upTail_def)
  moreover have "res \<noteq> None \<Longrightarrow> database w1 = database w" using txCommit_eq(3)[OF c] .
  ultimately show ?case unfolding c by (intro impI conjI exI[of _ "[]"] exI[of _ "[TxCommit res]"]) auto
next
  case (2 w tx i)
  show ?case
  proof (intro impI conjI)
    assume "0 \<le> i"
    then have "upTail s n i Panicked []" using 2 by (auto simp: upTail_def)
    then show "\<exists>steps tail. trace (snd (Panicked, w)) = trace w @ steps @ tail
        \<and> (\<forall>ev\<in>set steps. stepEvent s ev) \<and> upTail s n i (fst (Panicked, w)) tail"
      by (intro exI[of _ "[]"]) auto
  qed simp
next
  case (3 w tx i err tx1)
  have m: "s ! nat i \<in> set s" using 3 by simp
  have "upTail s n i
      (Returned (Some (Error (''Failed to up '' @ dbName (s ! nat i) @ '': '' @ message err))))
      [CalledUp (Name (s ! nat i)) (Some err), TxRollback]"
    unfolding upTail_def using m by blast
  then show ?case
    by (intro impI conjI exI[of _ "[]"] exI[of _ "[CalledUp (Name (s ! nat i)) (Some err), TxRollback]"]) auto
next
  case (4 w tx i tx1 err tx2 w2)
  have m: "s ! nat i \<in> set s" using 4 by simp
  have t: "trace w2 = trace w @ [CalledUp (Name (s ! nat i)) None, ExecInsert (dbName (s ! nat i)) (Some err)]"
    and d: "database w2 = database w"
    using execInsert_eq(1,2)[OF 4(5)] by simp_all
  have "upTail s n i (Returned (Some err))
      [CalledUp (Name (s ! nat i)) None, ExecInsert (dbName (s ! nat i)) (Some err), TxRollback]"
    unfolding upTail_def using m by blast
  then show ?case using t d
    by (intro impI conjI exI[of _ "[]"]
        exI[of _ "[CalledUp (Name (s ! nat i)) None, ExecInsert (dbName (s ! nat i)) (Some err), TxRollback]"]) auto
next
  case (5 w tx i tx1 tx2 w2)
  let ?log = "LogInfo [] (''Up'd '' @ dbName (s ! nat i) @ '' ('' @ itoa (i + 1) @ ''/'' @ itoa n @ '')'')"
  let ?res = "upLoop (emit ?log w2) tx2 s n (i + 1)"
  have m: "s ! nat i \<in> set s" using 5 by simp
  have t: "trace w2 = trace w @ [CalledUp (Name (s ! nat i)) None, ExecInsert (dbName (s ! nat i)) None]"
    and d: "database w2 = database w"
    using execInsert_eq(1,2)[OF 5(5)] by simp_all
  show ?case
  proof (intro impI conjI)
    assume i0: "0 \<le> i"
    then obtain steps tail where ih: "trace (snd ?res) = trace (emit ?log w2) @ steps @ tail"
      "\<forall>ev\<in>set steps. stepEvent s ev" "upTail s n (i + 1) (fst ?res) tail"
      using 5(6) by auto
    let ?steps = "[CalledUp (Name (s ! nat i)) None, ExecInsert (dbName (s ! nat i)) None, ?log] @ steps"
    have "trace (snd ?res) = trace w @ ?steps @ tail" using ih(1) t by simp
    moreover have "\<forall>ev\<in>set ?steps. stepEvent s ev"
      using ih(2) m by (auto simp: stepEvent_def)
    moreover have "upTail s n i (fst ?res) tail"
      using ih(3) 5(1,2,3) unfolding upTail_def by auto
    ultimately show "\<exists>steps tail. trace (snd ?res) = trace w @ steps @ tail
        \<and> (\<forall>ev\<in>set steps. stepEvent s ev) \<and> upTail s n i (fst ?res) tail"
      by blast
  next
    assume "0 \<le> i" "fst ?res \<noteq> Returned None"
    then show "database (snd ?res) = database w" using 5(6) d by simp
  qed
qed

lemma upLoop_shape:
  assumes "upLoop w tx s n i = (r, w')" "0 \<le> i"
  shows "\<exists>steps tail. trace w' = trace w @ steps @ tail
        \<and> (\<forall>ev\<in>set steps. stepEvent s ev) \<and> upTail s n i r tail"
    and "r \<noteq> Returned None \<Longrightarrow> database w' = database w"
  using upLoop_shape_aux[of i w tx s n] assms by auto

lemma downLoop_rule:
  assumes finish: "\<And>w tx i. \<not> i > wrap64 (int (length s) - 1 - n) \<Longrightarrow>
            P w tx i (case txCommit w tx of (err, w1) \<Rightarrow> (Returned err, w1))"
    and panic: "\<And>w tx i. i > wrap64 (int (length s) - 1 - n) \<Longrightarrow> i < 0 \<or> int (length s) \<le> i \<Longrightarrow>
            P w tx i (Panicked, w)"
    and downfail: "\<And>w tx i err tx1. i > wrap64 (int (length s) - 1 - n) \<Longrightarrow> 0 \<le> i \<Longrightarrow>
            i < int (length s) \<Longrightarrow> Down (s ! nat i) tx = (Some err, tx1) \<Longrightarrow>
            P w tx i
              (Returned (Some (Error (''Failed to down '' @ dbName (s ! nat i) @ '': '' @ message err))),
               txRollback (emit (CalledDown (Name (s ! nat i)) (Some err)) w))"
    and delfail: "\<And>w tx i tx1 err tx2 w2. i > wrap64 (int (length s) - 1 - n) \<Longrightarrow> 0 \<le> i \<Longrightarrow>
            i < int (length s) \<Longrightarrow> Down (s ! nat i) tx = (None, tx1) \<Longrightarrow>
            execDelete (emit (CalledDown (Name (s ! nat i)) None) w) tx1 (dbName (s ! nat i))
              = (Some err, tx2, w2) \<Longrightarrow>
            P w tx i (Returned (Some err), txRollback w2)"
    and step: "\<And>w tx i tx1 tx2 w2. i > wrap64 (int (length s) - 1 - n) \<Longrightarrow> 0 \<le> i \<Longrightarrow>
            i < int (length s) \<Longrightarrow> Down (s ! nat i) tx = (None, tx1) \<Longrightarrow>
            execDelete (emit (CalledDown (Name (s ! nat i)) None) w) tx1 (dbName (s ! nat i))
              = (None, tx2, w2) \<Longrightarrow>
            P (emit (LogInfo [] (''Down'd '' @ dbName (s ! nat i) @ '' ('' @ itoa i @ ''/''
                 @ itoa n @ '')'')) w2) tx2 (i - 1)
              (downLoop (emit (LogInfo [] (''Down'd '' @ dbName (s ! nat i) @ '' ('' @ itoa i
                 @ ''/'' @ itoa n @ '')'')) w2) tx2 s n (i - 1)) \<Longrightarrow>
            P w tx i
              (downLoop (emit (LogInfo [] (''Down'd '' @ dbName (s ! nat i) @ '' ('' @ itoa i
                 @ ''/'' @ itoa n @ '')'')) w2) tx2 s n (i - 1))"
  shows "P w tx i (downLoop w tx s n i)"
proof (induction "nat (i - wrap64 (int (length s) - 1 - n))" arbitrary: w tx i)
  case 0
  then have "\<not> i > wrap64 (int (length s) - 1 - n)" by simp
  then show ?case using finish[of i w tx] by (subst downLoop.simps) simp
next
  case (Suc k)
  then have lt: "i > wrap64 (int (length s) - 1 - n)" by simp
  show ?case
  proof (cases "i < 0 \<or> int (length s) \<le> i")
    case True
    then show ?thesis using panic[OF lt, of w tx] lt by (subst downLoop.simps) simp
  next
    case False
    then have rng: "0 \<le> i" "i < int (length s)" by auto
    obtain r1 tx1 where u: "Down (s ! nat i) tx = (r1, tx1)" by (cases "Down (s ! nat i) tx")
    show ?thesis
    proof (cases r1)
      case (Some err)
      then show ?thesis using downfail[OF lt rng, of tx err tx1 w] u lt rng
        by (subst downLoop.simps) simp
    next
      case None
      obtain r2 tx2 w2 where e:
        "execDelete (emit (CalledDown (Name (s ! nat i)) None) w) tx1 (dbName (s ! nat i)) = (r2, tx2, w2)"
        by (metis prod_cases3)
      show ?thesis
      proof (cases r2)
        case (Some err)
        then show ?thesis using delfail[OF lt rng, of tx tx1 w err tx2 w2] u None e lt rng
          by (subst downLoop.simps) simp
      next
        case n2: None
        have k: "k = nat (i - 1 - wrap64 (int (length s) - 1 - n))" using Suc(2) by simp
        show ?thesis
          using step[OF lt rng, of tx tx1 w tx2 w2, OF _ _ Suc(1)[OF k]] u None e n2 lt rng
          by (subst downLoop.simps) simp
      qed
    qed
  qed
qed

lemma downLoop_shape_aux:
  "- 1 \<le> i \<and> i < int (length s) \<longrightarrow>
     (\<exists>steps tail. trace (snd (downLoop w tx s n i)) = trace w @ steps @ tail
        \<and> (\<forall>ev\<in>set steps. stepEvent s ev)
        \<and> downTail s n (fst (downLoop w tx s n i)) tail)
     \<and> (fst (downLoop w tx s n i) \<noteq> Returned None \<longrightarrow>
          database (snd (downLoop w tx s n i)) = database w)"
proof (rule downLoop_rule[where P = "\<lambda>w tx i res. - 1 \<le> i \<and> i < int (length s) \<longrightarrow>
     (\<exists>steps tail. trace (snd res) = trace w @ steps @ tail
        \<and> (\<forall>ev\<in>set steps. stepEvent s ev)
        \<and> downTail s n (fst res) tail)
     \<and> (fst res \<noteq> Returned None \<longrightarrow> database (snd res) = database w)"], goal_cases)
  case (1 w tx i)
  obtain res w1 where c: "txCommit w tx = (res, w1)" by (cases "txCommit w tx")
  have "trace w1 = trace w @ [] @ [TxCommit res]" using txCommit_eq(1)[OF c] by simp
  moreover have "downTail s n (Returned res) [TxCommit res]" if "- 1 \<le> i"
    using 1 that by (simp add: downTail_def)
  moreover have "res \<noteq> None \<Longrightarrow> database w1 = database w" using txCommit_eq(3)[OF c] .
  ultimately show ?case unfolding c by (intro impI conjI exI[of _ "[]"] exI[of _ "[TxCommit res]"]) auto
next
  case (2 w tx i)
  show ?case
  proof (intro impI conjI)
    assume "- 1 \<le> i \<and> i < int (length s)"
    then have "downTail s n Panicked []" using 2 by (auto simp: downTail_def)
    then show "\<exists>steps tail. trace (snd (Panicked, w)) = trace w @ steps @ tail
        \<and> (\<forall>ev\<in>set steps. stepEvent s ev) \<and> downTail s n (fst (Panicked, w)) tail"
      by (intro exI[of _ "[]"]) auto
  qed simp
next
  case (3 w tx i err tx1)
  have m: "s ! nat i \<in> set s" using 3 by simp
  have "downTail s n
      (Returned (Some (Error (''Failed to down '' @ dbName (s ! nat i) @ '': '' @ message err))))
      [CalledDown (Name (s ! nat i)) (Some err), TxRollback]"
    unfolding downTail_def using m by blast
  then show ?case
    by (intro impI conjI exI[of _ "[]"] exI[of _ "[CalledDown (Name (s ! nat i)) (Some err), TxRollback]"]) auto
next
  case (4 w tx i tx1 err tx2 w2)
  have m: "s ! nat i \<in> set s" using 4 by simp
  have t: "trace w2 = trace w @ [CalledDown (Name (s ! nat i)) None, ExecDelete (dbName (s ! nat i)) (Some err)]"
    and d: "database w2 = database w"
    using execDelete_eq(1,2)[OF 4(5)] by simp_all
  have "downTail s n (Returned (Some err))
      [CalledDown (Name (s ! nat i)) None, ExecDelete (dbName (s ! nat i)) (Some err), TxRollback]"
    unfolding downTail_def using m by blast
  then show ?case using t d
    by (intro impI conjI exI[of _ "[]"]
        exI[of _ "[CalledDown (Name (s ! nat i)) None, ExecDelete (dbName (s ! nat i)) (Some err), TxRollback]"]) auto
next
  case (5 w tx i tx1 tx2 w2)
  let ?log = "LogInfo [] (''Down'd '' @ dbName (s ! nat i) @ '' ('' @ itoa i @ ''/'' @ itoa n @ '')'')"
  let ?res = "downLoop (emit ?log w2) tx2 s n (i - 1)"
  have m: "s ! nat i \<in> set s" using 5 by simp
  have t: "trace w2 = trace w @ [CalledDown (Name (s ! nat i)) None, ExecDelete (dbName (s ! nat i)) None]"
    and d: "database w2 = database w"
    using execDelete_eq(1,2)[OF 5(5)] by simp_all
  show ?case
  proof (intro impI conjI)
    assume i0: "- 1 \<le> i \<and> i < int (length s)"
    then obtain steps tail where ih: "trace (snd ?res) = trace (emit ?log w2) @ steps @ tail"
      "\<forall>ev\<in>set steps. stepEvent s ev" "downTail s n (fst ?res) tail"
      using 5(2,6) by auto
    let ?steps = "[CalledDown (Name (s ! nat i)) None, ExecDelete (dbName (s ! nat i)) None, ?log] @ steps"
    have "trace (snd ?res) = trace w @ ?steps @ tail" using ih(1) t by simp
    moreover have "\<forall>ev\<in>set ?steps. stepEvent s ev"
      using ih(2) m by (auto simp: stepEvent_def)
    moreover have "downTail s n (fst ?res) tail"
      using ih(3) 5(1,2,3) unfolding downTail_def by auto
    ultimately show "\<exists>steps tail. trace (snd ?res) = trace w @ steps @ tail
        \<and> (\<forall>ev\<in>set steps. stepEvent s ev) \<and> downTail s n (fst ?res) tail"
      by blast
  next
    assume "- 1 \<le> i \<and> i < int (length s)" "fst ?res \<noteq> Returned None"
    then show "database (snd ?res) = database w" using 5(2,6) d by simp
  qed
qed

lemma downLoop_shape:
  assumes "downLoop w tx s n i = (r, w')" "- 1 \<le> i" "i < int (length s)"
  shows "\<exists>steps tail. trace w' = trace w @ steps @ tail
        \<and> (\<forall>ev\<in>set steps. stepEvent s ev) \<and> downTail s n r tail"
    and "r \<noteq> Returned None \<Longrightarrow> database w' = database w"
  using downLoop_shape_aux[of i s w tx n] assms by auto

lemma upLoop_tracking_aux:
  "0 \<le> i \<and> (\<forall>m\<in>set s. keepsTracking (Up m)) \<and> fst (upLoop w tx s n i) = Returned None \<longrightarrow>
     tracking (database (snd (upLoop w tx s n i)))
       = map_option (\<lambda>rows. rows @ map dbName (drop (nat i) (take (nat n) s))) (tracking tx)"
proof (rule upLoop_rule[where P = "\<lambda>w tx i res.
     0 \<le> i \<and> (\<forall>m\<in>set s. keepsTracking (Up m)) \<and> fst res = Returned None \<longrightarrow>
     tracking (database (snd res))
       = map_option (\<lambda>rows. rows @ map dbName (drop (nat i) (take (nat n) s))) (tracking tx)"],
    goal_cases)
  case (1 w tx i)
  obtain res w1 where c: "txCommit w tx = (res, w1)" by (cases "txCommit w tx")
  show ?case
  proof (intro impI)
    assume h: "0 \<le> i \<and> (\<forall>m\<in>set s. keepsTracking (Up m))
        \<and> fst (case txCommit w tx of (err, w1) \<Rightarrow> (Returned err, w1)) = Returned None"
    then have "res = None" using c by simp
    then have "database w1 = tx" using txCommit_eq(2)[OF c] by simp
    moreover have "drop (nat i) (take (nat n) s) = []" using 1 h by simp
    ultimately show "tracking (database (snd (case txCommit w tx of (err, w1) \<Rightarrow> (Returned err, w1))))
       = map_option (\<lambda>rows. rows @ map dbName (drop (nat i) (take (nat n) s))) (tracking tx)"
      using c by (simp add: option.map_ident)
  qed
next
  case (5 w tx i tx1 tx2 w2)
  let ?log = "LogInfo [] (''Up'd '' @ dbName (s ! nat i) @ '' ('' @ itoa (i + 1) @ ''/'' @ itoa n @ '')'')"
  let ?res = "upLoop (emit ?log w2) tx2 s n (i + 1)"
  show ?case
  proof (intro impI)
    assume h: "0 \<le> i \<and> (\<forall>m\<in>set s. keepsTracking (Up m)) \<and> fst ?res = Returned None"
    have m: "s ! nat i \<in> set s" using 5 by simp
    then have "tracking tx1 = tracking tx"
      using h 5(4) unfolding keepsTracking_def by (metis snd_conv)
    moreover obtain rows where "tracking tx1 = Some rows" "tx2 = tx1\<lparr>tracking := Some (rows @ [dbName (s ! nat i)])\<rparr>"
      using execInsert_eq(3)[OF 5(5)] by auto
    ultimately have t: "tracking tx = Some rows" "tracking tx2 = Some (rows @ [dbName (s ! nat i)])"
      by simp_all
    have li: "nat i < length (take (nat n) s)" and ni: "nat i < nat n" using 5(1,2,3) by simp_all
    have "drop (nat i) (take (nat n) s)
        = take (nat n) s ! nat i # drop (Suc (nat i)) (take (nat n) s)"
      using Cons_nth_drop_Suc[OF li] by simp
    then have dr: "drop (nat i) (take (nat n) s) = s ! nat i # drop (nat (i + 1)) (take (nat n) s)"
      using 5(2) ni by (simp add: nat_add_distrib)
    have "tracking (database (snd ?res))
       = map_option (\<lambda>rows. rows @ map dbName (drop (nat (i + 1)) (take (nat n) s))) (tracking tx2)"
      using 5(6) h by simp
    then show "tracking (database (snd ?res))
       = map_option (\<lambda>rows. rows @ map dbName (drop (nat i) (take (nat n) s))) (tracking tx)"
      using t dr by simp
  qed
qed simp_all

lemma upLoop_tracking:
  assumes "upLoop w tx s n i = (Returned None, w')" "0 \<le> i" "\<forall>m\<in>set s. keepsTracking (Up m)"
  shows "tracking (database w')
       = map_option (\<lambda>rows. rows @ map dbName (drop (nat i) (take (nat n) s))) (tracking tx)"
  using upLoop_tracking_aux[of i s w tx n] assms by simp

subsection \<open>The runners and the calls they record\<close>

lemma length_sortMigrations [simp]: "length (sortMigrations migs) = length migs"
  by (simp add: sortMigrations_def)

lemma set_sortMigrations [simp]: "set (sortMigrations migs) = set migs"
  by (simp add: sortMigrations_def)

lemma mset_sortMigrations: "mset (sortMigrations migs) = mset migs"
  by (simp add: sortMigrations_def mset_Sort)

lemma stepEvent_sortMigrations [simp]: "stepEvent (sortMigrations migs) ev = stepEvent migs ev"
  by (simp add: stepEvent_def)

lemma migrateUpN_shape:
  assumes "migrateUpN w migs n = (r, w')"
  shows "(\<exists>err. r = Returned (Some err) \<and> trace w' = trace w @ [TxBegin (Some err)])
       \<or> (\<exists>steps tail. trace w' = trace w @ [TxBegin None] @ steps @ tail
            \<and> (\<forall>ev\<in>set steps. stepEvent migs ev)
            \<and> upTail (sortMigrations migs) n 0 r tail)"
    and "r \<noteq> Returned None \<Longrightarrow> database w' = database w"
proof -
  obtain b w1 where b: "txBegin w = (b, w1)" by (cases "txBegin w")
  show "(\<exists>err. r = Returned (Some err) \<and> trace w' = trace w @ [TxBegin (Some err)])
       \<or> (\<exists>steps tail. trace w' = trace w @ [TxBegin None] @ steps @ tail
            \<and> (\<forall>ev\<in>set steps. stepEvent migs ev)
            \<and> upTail (sortMigrations migs) n 0 r tail)"
  proof (cases b)
    case (Inl err)
    then show ?thesis using assms b txBegin_eq(2)[OF b] by (simp add: migrateUpN_def)
  next
    case (Inr tx)
    then have l: "upLoop w1 tx (sortMigrations migs) n 0 = (r, w')"
      using assms b by (simp add: migrateUpN_def)
    have "trace w1 = trace w @ [TxBegin None]" using txBegin_eq(3)[OF b Inr] by simp
    then show ?thesis using upLoop_shape(1)[OF l] by auto
  qed
  show "database w' = database w" if "r \<noteq> Returned None"
  proof (cases b)
    case (Inl err)
    then show ?thesis using assms b txBegin_eq(1)[OF b] by (simp add: migrateUpN_def)
  next
    case (Inr tx)
    then have l: "upLoop w1 tx (sortMigrations migs) n 0 = (r, w')"
      using assms b by (simp add: migrateUpN_def)
    show ?thesis using upLoop_shape(2)[OF l] that txBegin_eq(1)[OF b] by simp
  qed
qed

lemma migrateDownN_shape:
  assumes "migrateDownN w migs n = (r, w')"
  shows "(\<exists>err. r = Returned (Some err) \<and> trace w' = trace w @ [TxBegin (Some err)])
       \<or> (\<exists>steps tail. trace w' = trace w @ [TxBegin None] @ steps @ tail
            \<and> (\<forall>ev\<in>set steps. stepEvent migs ev)
            \<and> downTail (sortMigrations migs) n r tail)"
    and "r \<noteq> Returned None \<Longrightarrow> database w' = database w"
proof -
  obtain b w1 where b: "txBegin w = (b, w1)" by (cases "txBegin w")
  show "(\<exists>err. r = Returned (Some err) \<and> trace w' = trace w @ [TxBegin (Some err)])
       \<or> (\<exists>steps tail. trace w' = trace w @ [TxBegin None] @ steps @ tail
            \<and> (\<forall>ev\<in>set steps. stepEvent migs ev)
            \<and> downTail (sortMigrations migs) n r tail)"
  proof (cases b)
    case (Inl err)
    then show ?thesis using assms b txBegin_eq(2)[OF b] by (simp add: migrateDownN_def)
  next
    case (Inr tx)
    then have l: "downLoop w1 tx (sortMigrations migs) n (int (length migs) - 1) = (r, w')"
      using assms b by (simp add: migrateDownN_def)
    have "trace w1 = trace w @ [TxBegin None]" using txBegin_eq(3)[OF b Inr] by simp
    then show ?thesis using downLoop_shape(1)[OF l] by auto
  qed
  show "database w' = database w" if "r \<noteq> Returned None"
  proof (cases b)
    case (Inl err)
    then show ?thesis using assms b txBegin_eq(1)[OF b] by (simp add: migrateDownN_def)
  next
    case (Inr tx)
    then have l: "downLoop w1 tx (sortMigrations migs) n (int (length migs) - 1) = (r, w')"
      using assms b by (simp add: migrateDownN_def)
    show ?thesis using downLoop_shape(2)[OF l] that txBegin_eq(1)[OF b] by simp
  qed
qed

lemma migrateUpN_insert_key:
  assumes "migrateUpN w migs n = (r, w')" "trace w' = trace w @ evs" "ExecInsert k res \<in> set evs"
  shows "\<exists>m\<in>set migs. k = dbName m"
proof -
  from migrateUpN_shape(1)[OF assms(1)] show ?thesis
  proof (elim disjE exE conjE)
    fix err assume "trace w' = trace w @ [TxBegin (Some err)]"
    then show ?thesis using assms(2,3) by auto
  next
    fix steps tail
    assume t: "trace w' = trace w @ [TxBegin None] @ steps @ tail"
      and s: "\<forall>ev\<in>set steps. stepEvent migs ev"
      and u: "upTail (sortMigrations migs) n 0 r tail"
    from t assms(2) have "evs = [TxBegin None] @ steps @ tail" by simp
    with assms(3) consider "ExecInsert k res \<in> set steps" | "ExecInsert k res \<in> set tail"
      by auto
    then show ?thesis
    proof cases
      case 1
      then show ?thesis using s by (auto simp: stepEvent_def)
    next
      case 2
      then show ?thesis using u by (auto simp: upTail_def)
    qed
  qed
qed

lemma migrateDownN_delete_key:
  assumes "migrateDownN w migs n = (r, w')" "trace w' = trace w @ evs" "ExecDelete k res \<in> set evs"
  shows "\<exists>m\<in>set migs. k = dbName m"
proof -
  from migrateDownN_shape(1)[OF assms(1)] show ?thesis
  proof (elim disjE exE conjE)
    fix err assume "trace w' = trace w @ [TxBegin (Some err)]"
    then show ?thesis using assms(2,3) by auto
  next
    fix steps tail
    assume t: "trace w' = trace w @ [TxBegin None] @ steps @ tail"
      and s: "\<forall>ev\<in>set steps. stepEvent migs ev"
      and u: "downTail (sortMigrations migs) n r tail"
    from t assms(2) have "evs = [TxBegin None] @ steps @ tail" by simp
    with assms(3) consider "ExecDelete k res \<in> set steps" | "ExecDelete k res \<in> set tail"
      by auto
    then show ?thesis
    proof cases
      case 1
      then show ?thesis using s by (auto simp: stepEvent_def)
    next
      case 2
      then show ?thesis using u by (auto simp: downTail_def)
    qed
  qed
qed

subsection \<open>Reading the tracking table\<close>

lemma toRunLoop_filter:
  "toRunLoop hasRun migs toRun = toRun @ filter (\<lambda>c. dbName c \<notin> dom hasRun) migs"
  by (induction migs arbitrary: toRun) (auto simp: Let_def domIff)

lemma querySelect_eq:
  assumes "querySelect w = (res, w1)"
  shows "database w1 = database w"
    "\<And>err. res = Inl err \<Longrightarrow> trace w1 = trace w @ [QuerySelect (Some err)]"
    "\<And>rows. res = Inr rows \<Longrightarrow>
       trace w1 = trace w @ [QuerySelect None] \<and> tracking (database w) = Some rows"
  using assms
  by (auto simp: querySelect_def dest: respond_eq split: prod.splits option.splits)

lemma scanRows_props:
  "\<exists>evs. trace (snd (scanRows w rows hasRun)) = trace w @ evs
      \<and> (\<forall>ev\<in>set evs. isCursor ev)
      \<and> ((\<forall>ev\<in>set evs. \<not> readFault ev) \<longrightarrow>
            dom (fst (scanRows w rows hasRun)) = dom hasRun \<union> set rows)
      \<and> database (snd (scanRows w rows hasRun)) = database w"
proof (induction rows arbitrary: w hasRun)
  case Nil
  obtain r w1 where r: "respond w = (r, w1)" by (cases "respond w")
  then show ?case using respond_eq[OF r]
    by (subst (1 2 3) scanRows.simps) (cases r; simp)
next
  case (Cons row rest)
  obtain r w1 where r: "respond w = (r, w1)" by (cases "respond w")
  note w1 = respond_eq[OF r]
  show ?case
  proof (cases r)
    case (Some err)
    then show ?thesis using r w1 by (subst (1 2 3) scanRows.simps) simp
  next
    case None
    obtain r2 w2 where r2: "respond (emit (RowsNext None) w1) = (r2, w2)"
      by (cases "respond (emit (RowsNext None) w1)")
    note w2 = respond_eq[OF r2]
    show ?thesis
    proof (cases r2)
      case (Some err)
      let ?w = "emit (RowsScan (Some err)) w2" and ?h = "hasRun([] \<mapsto> True)"
      have eq: "scanRows w (row # rest) hasRun = scanRows ?w rest ?h"
        using r None r2 Some by (subst scanRows.simps) simp
      from Cons[of ?w ?h] obtain evs where
        e: "trace (snd (scanRows ?w rest ?h)) = trace ?w @ evs" "\<forall>ev\<in>set evs. isCursor ev"
           "database (snd (scanRows ?w rest ?h)) = database ?w"
        by blast
      have "trace (snd (scanRows ?w rest ?h))
          = trace w @ ([RowsNext None, RowsScan (Some err)] @ evs)"
        using e(1) w1 w2 by simp
      moreover have "\<forall>ev\<in>set ([RowsNext None, RowsScan (Some err)] @ evs). isCursor ev"
        using e(2) by simp
      moreover have "\<not> (\<forall>ev\<in>set ([RowsNext None, RowsScan (Some err)] @ evs). \<not> readFault ev)"
        by simp
      moreover have "database (snd (scanRows ?w rest ?h)) = database w"
        using e(3) w1 w2 by simp
      ultimately show ?thesis unfolding eq by blast
    next
      case n2: None
      let ?w = "emit (RowsScan None) w2" and ?h = "hasRun(row \<mapsto> True)"
      have eq: "scanRows w (row # rest) hasRun = scanRows ?w rest ?h"
        using r None r2 n2 by (subst scanRows.simps) simp
      from Cons[of ?w ?h] obtain evs where
        e: "trace (snd (scanRows ?w rest ?h)) = trace ?w @ evs" "\<forall>ev\<in>set evs. isCursor ev"
           "(\<forall>ev\<in>set evs. \<not> readFault ev) \<longrightarrow>
              dom (fst (scanRows ?w rest ?h)) = dom ?h \<union> set rest"
           "database (snd (scanRows ?w rest ?h)) = database ?w"
        by blast
      have "trace (snd (scanRows ?w rest ?h)) = trace w @ ([RowsNext None, RowsScan None] @ evs)"
        using e(1) w1 w2 by simp
      moreover have "\<forall>ev\<in>set ([RowsNext None, RowsScan None] @ evs). isCursor ev"
        using e(2) by simp
      moreover have "(\<forall>ev\<in>set ([RowsNext None, RowsScan None] @ evs). \<not> readFault ev) \<longrightarrow>
          dom (fst (scanRows ?w rest ?h)) = dom hasRun \<union> set (row # rest)"
        using e(3) by auto
      moreover have "database (snd (scanRows ?w rest ?h)) = database w"
        using e(4) w1 w2 by simp
      ultimately show ?thesis unfolding eq by blast
    qed
  qed
qed

lemma needsToRun_Inl:
  assumes "needsToRun w migs = (Inl err, w')"
  shows "trace w' = trace w @ [QuerySelect (Some err)]" "database w' = database w"
proof -
  obtain q w1 where q: "querySelect w = (q, w1)" by (cases "querySelect w")
  have "q = Inl err \<and> w' = w1"
    using assms q by (cases q) (auto simp: needsToRun_def split: prod.splits)
  then show "trace w' = trace w @ [QuerySelect (Some err)]" "database w' = database w"
    using querySelect_eq(1,2)[OF q] by simp_all
qed

lemma needsToRun_Inr:
  assumes "needsToRun w migs = (Inr toRun, w')"
  shows "\<exists>rows cur. tracking (database w) = Some rows
      \<and> trace w' = trace w @ [QuerySelect None] @ cur @ [RowsClose]
      \<and> (\<forall>ev\<in>set cur. isCursor ev)
      \<and> ((\<forall>ev\<in>set cur. \<not> readFault ev) \<longrightarrow> hasRunRead w = set rows)"
    and "toRun = filter (\<lambda>c. dbName c \<notin> hasRunRead w) migs"
    and "database w' = database w"
proof -
  obtain q w1 where q: "querySelect w = (q, w1)" by (cases "querySelect w")
  obtain rows where rows: "q = Inr rows"
    using assms q by (cases q) (auto simp: needsToRun_def)
  obtain h w2 where s: "scanRows w1 rows Map.empty = (h, w2)"
    by (cases "scanRows w1 rows Map.empty")
  have res: "toRun = toRunLoop h migs []" "w' = emit RowsClose w2"
    using assms q rows s by (auto simp: needsToRun_def)
  have hr: "hasRunRead w = dom h" using q rows s by (simp add: hasRunRead_def)
  note qs = querySelect_eq(1)[OF q] querySelect_eq(3)[OF q rows]
  from scanRows_props[of w1 rows Map.empty] s obtain cur where
    c: "trace w2 = trace w1 @ cur" "\<forall>ev\<in>set cur. isCursor ev"
       "(\<forall>ev\<in>set cur. \<not> readFault ev) \<longrightarrow> dom h = set rows" "database w2 = database w1"
    by auto
  show "\<exists>rows cur. tracking (database w) = Some rows
      \<and> trace w' = trace w @ [QuerySelect None] @ cur @ [RowsClose]
      \<and> (\<forall>ev\<in>set cur. isCursor ev)
      \<and> ((\<forall>ev\<in>set cur. \<not> readFault ev) \<longrightarrow> hasRunRead w = set rows)"
    using qs c res hr by (intro exI[of _ rows] exI[of _ cur]) simp
  show "toRun = filter (\<lambda>c. dbName c \<notin> hasRunRead w) migs"
    using res hr by (simp add: toRunLoop_filter)
  show "database w' = database w" using res c(4) qs(1) by simp
qed

lemma needsToRun_clean:
  assumes "needsToRun w migs = (res, w')" "trace w' = trace w @ evs"
    "\<forall>ev\<in>set evs. \<not> failed ev"
  shows "\<exists>rows. tracking (database w) = Some rows \<and> hasRunRead w = set rows
      \<and> res = Inr (filter (\<lambda>c. dbName c \<notin> set rows) migs)"
proof (cases res)
  case (Inl err)
  then have "evs = [QuerySelect (Some err)]" using needsToRun_Inl(1)[of w migs err w'] assms by simp
  then show ?thesis using assms(3) by simp
next
  case (Inr toRun)
  from needsToRun_Inr[of w migs toRun w'] assms(1) Inr obtain rows cur where
    r: "tracking (database w) = Some rows"
       "trace w' = trace w @ [QuerySelect None] @ cur @ [RowsClose]"
       "(\<forall>ev\<in>set cur. \<not> readFault ev) \<longrightarrow> hasRunRead w = set rows"
       "toRun = filter (\<lambda>c. dbName c \<notin> hasRunRead w) migs"
    by blast
  have "evs = [QuerySelect None] @ cur @ [RowsClose]" using r(2) assms(2) by simp
  then have "\<forall>ev\<in>set cur. \<not> failed ev" using assms(3) by simp
  moreover have "\<And>ev. readFault ev \<Longrightarrow> failed ev" by (case_tac ev) simp_all
  ultimately have "\<forall>ev\<in>set cur. \<not> readFault ev" by blast
  then show ?thesis using r Inr by simp
qed

subsection \<open>Evaluating the examples\<close>

lemmas ex_simps = needsToRun_def querySelect_def respond_def emit_def exWorld_def scanRows.simps
      dbName_def exA_def exB_def NewSimpleMigration_def Date_def Name_def Unix_def exDate_def itoa_def
      digits.simps digit_def Let_def

subsection \<open>C4: the tracking key\<close>

text \<open>
  C4. For every migration, \<^verbatim>\<open>dbName\<close> is the string made of the decimal Unix seconds of
  its date, an underscore and its name, cut to its first 500 bytes: it is never longer than
  500, and a composed key of 600 bytes gives exactly 500. The same derivation is used when
  writing and when reading: every \<^verbatim>\<open>INSERT\<close> that \<^verbatim>\<open>migrateUpN\<close> issues and every
  \<^verbatim>\<open>DELETE\<close> that \<^verbatim>\<open>migrateDownN\<close> issues carries the \<^verbatim>\<open>dbName\<close> of one of the
  supplied migrations, and \<^verbatim>\<open>needsToRun\<close> keeps a candidate exactly when its \<^verbatim>\<open>dbName\<close>
  is not among the names read from the tracking table.
\<close>
theorem dbName_tracking_key:
  fixes mig :: "'s SimpleMigration"
  shows "dbName mig = take 500 (itoa (Unix (Date mig)) @ ''_'' @ Name mig)
    \<and> length (dbName mig) \<le> 500
    \<and> (length (itoa (Unix (Date mig)) @ ''_'' @ Name mig) = 600 \<longrightarrow> length (dbName mig) = 500)
    \<and> (\<forall>(w::'s world) migs n r w' evs k res.
          migrateUpN w migs n = (r, w') \<and> trace w' = trace w @ evs \<and> ExecInsert k res \<in> set evs
          \<longrightarrow> (\<exists>m\<in>set migs. k = dbName m))
    \<and> (\<forall>(w::'s world) migs n r w' evs k res.
          migrateDownN w migs n = (r, w') \<and> trace w' = trace w @ evs \<and> ExecDelete k res \<in> set evs
          \<longrightarrow> (\<exists>m\<in>set migs. k = dbName m))
    \<and> (\<forall>(w::'s world) migs toRun w'.
          needsToRun w migs = (Inr toRun, w')
          \<longrightarrow> toRun = filter (\<lambda>c. dbName c \<notin> hasRunRead w) migs)"
proof (intro conjI allI impI)
  show "dbName mig = take 500 (itoa (Unix (Date mig)) @ ''_'' @ Name mig)"
    by (simp add: dbName_def Let_def)
  show "length (dbName mig) \<le> 500"
    by (simp add: dbName_def Let_def del: take_append)
  show "length (dbName mig) = 500" if "length (itoa (Unix (Date mig)) @ ''_'' @ Name mig) = 600"
    using that by (simp add: dbName_def Let_def del: take_append)
next
  fix w :: "'s world" and migs n r w' evs k res
  assume "migrateUpN w migs n = (r, w') \<and> trace w' = trace w @ evs \<and> ExecInsert k res \<in> set evs"
  then show "\<exists>m\<in>set migs. k = dbName m" using migrateUpN_insert_key by blast
next
  fix w :: "'s world" and migs n r w' evs k res
  assume "migrateDownN w migs n = (r, w') \<and> trace w' = trace w @ evs \<and> ExecDelete k res \<in> set evs"
  then show "\<exists>m\<in>set migs. k = dbName m" using migrateDownN_delete_key by blast
next
  fix w :: "'s world" and migs toRun w'
  assume "needsToRun w migs = (Inr toRun, w')"
  then show "toRun = filter (\<lambda>c. dbName c \<notin> hasRunRead w) migs" by (rule needsToRun_Inr(2))
qed

theorem dbName_tracking_key_witness:
  "length (itoa (Unix (Date exLong)) @ ''_'' @ Name exLong) = 600
   \<and> length (dbName exLong) = 500
   \<and> dbName exLong = ''1599691380_'' @ replicate 489 CHR ''x''
   \<and> ExecInsert ''1599691380_b'' None \<in> set (trace (snd (migrateUpN exWorld [exB] 1)))
   \<and> (\<exists>m\<in>set [exB]. ''1599691380_b'' = dbName m)
   \<and> ExecDelete ''1599691380_a'' None \<in> set (trace (snd (migrateDownN exWorld [exA] 1)))
   \<and> (\<exists>m\<in>set [exA]. ''1599691380_a'' = dbName m)
   \<and> map Name (projr (fst (needsToRun exWorld [exA, exB]))) = [''b'']"
proof -
  have l: "length (itoa (Unix (Date exLong)) @ ''_'' @ Name exLong) = 600"
    by code_simp
  have d: "dbName exLong = ''1599691380_'' @ replicate 489 CHR ''x''"
    by code_simp
  have u: "migrateUpN exWorld [exB] 1
      = (fst (migrateUpN exWorld [exB] 1), snd (migrateUpN exWorld [exB] 1))
    \<and> trace (snd (migrateUpN exWorld [exB] 1))
      = trace exWorld @ trace (snd (migrateUpN exWorld [exB] 1))
    \<and> ExecInsert ''1599691380_b'' None \<in> set (trace (snd (migrateUpN exWorld [exB] 1)))"
    by code_simp
  have dn: "migrateDownN exWorld [exA] 1
      = (fst (migrateDownN exWorld [exA] 1), snd (migrateDownN exWorld [exA] 1))
    \<and> trace (snd (migrateDownN exWorld [exA] 1))
      = trace exWorld @ trace (snd (migrateDownN exWorld [exA] 1))
    \<and> ExecDelete ''1599691380_a'' None \<in> set (trace (snd (migrateDownN exWorld [exA] 1)))"
    by code_simp
  have nr: "map Name (projr (fst (needsToRun exWorld [exA, exB]))) = [''b'']"
    by code_simp
  note t = dbName_tracking_key[of exLong]
  have ins: "\<And>(w::nat world) migs n r w' evs k res.
      migrateUpN w migs n = (r, w') \<and> trace w' = trace w @ evs \<and> ExecInsert k res \<in> set evs
      \<Longrightarrow> \<exists>m\<in>set migs. k = dbName m"
    using t by blast
  have del: "\<And>(w::nat world) migs n r w' evs k res.
      migrateDownN w migs n = (r, w') \<and> trace w' = trace w @ evs \<and> ExecDelete k res \<in> set evs
      \<Longrightarrow> \<exists>m\<in>set migs. k = dbName m"
    using t by blast
  from t l have "length (dbName exLong) = 500" by blast
  moreover from ins[OF u] have "\<exists>m\<in>set [exB]. ''1599691380_b'' = dbName m" .
  moreover from del[OF dn] have "\<exists>m\<in>set [exA]. ''1599691380_a'' = dbName m" .
  ultimately show ?thesis using l d u dn nr by blast
qed

subsection \<open>C5: sortMigrations\<close>

text \<open>
  C5. For every collection of migration units, \<^verbatim>\<open>sortMigrations\<close> returns the same units
  in an order that is non-decreasing in \<^verbatim>\<open>Date()\<close>, strictly ascending when all dates are
  distinct. The caller's collection is not mutated: the result is a newly allocated array,
  and the caller's array and every other array allocated before hold what they held.
\<close>
theorem sortMigrations_sorted_copy:
  "sorted_wrt (\<lambda>x y. \<not> Before (Date y) (Date x)) (sortMigrations ml)
   \<and> (distinct (map Date ml) \<longrightarrow>
        sorted_wrt (\<lambda>x y. Before (Date x) (Date y)) (sortMigrations ml))
   \<and> mset (sortMigrations ml) = mset ml
   \<and> (migs < length mem \<longrightarrow>
        (case sortMigrationsMem mem migs of
           (sorted', mem') \<Rightarrow>
             sorted' \<noteq> migs \<and> mem' ! migs = mem ! migs
             \<and> take (length mem) mem' = mem
             \<and> mem' ! sorted' = sortMigrations (mem ! migs)))"
proof (intro conjI impI)
  show "sorted_wrt (\<lambda>x y. \<not> Before (Date y) (Date x)) (sortMigrations ml)"
    using sorted_Sort[of ml] by (simp add: sortMigrations_def notAfter_def[abs_def])
  show "sorted_wrt (\<lambda>x y. Before (Date x) (Date y)) (sortMigrations ml)"
    if "distinct (map Date ml)"
    using sorted_Sort_strict[OF that] by (simp add: sortMigrations_def)
  show "mset (sortMigrations ml) = mset ml" by (rule mset_sortMigrations)
  show "case sortMigrationsMem mem migs of
           (sorted', mem') \<Rightarrow>
             sorted' \<noteq> migs \<and> mem' ! migs = mem ! migs
             \<and> take (length mem) mem' = mem
             \<and> mem' ! sorted' = sortMigrations (mem ! migs)"
    if "migs < length mem"
    using that by (simp add: sortMigrationsMem_def Let_def nth_append sortMigrations_def)
qed

theorem sortMigrations_sorted_copy_witness:
  "distinct (map Date [exLater, exNow])
   \<and> sorted_wrt (\<lambda>x y. Before (Date x) (Date y)) (sortMigrations [exLater, exNow])
   \<and> map Name (sortMigrations [exLater, exNow]) = [''b'', ''a'']
   \<and> (0::nat) < length [[exLater, exNow]]
   \<and> fst (sortMigrationsMem [[exLater, exNow]] 0) = 1
   \<and> map Name (snd (sortMigrationsMem [[exLater, exNow]] 0) ! 0) = [''a'', ''b'']
   \<and> map Name (snd (sortMigrationsMem [[exLater, exNow]] 0) ! 1) = [''b'', ''a'']"
proof -
  have d: "distinct (map Date [exLater, exNow])"
    by (simp add: exLater_def exNow_def exDate_def NewSimpleMigration_def Date_def)
  have n: "map Name (sortMigrations [exLater, exNow]) = [''b'', ''a'']"
    by code_simp
  have m: "fst (sortMigrationsMem [[exLater, exNow]] 0) = 1
   \<and> map Name (snd (sortMigrationsMem [[exLater, exNow]] 0) ! 0) = [''a'', ''b'']
   \<and> map Name (snd (sortMigrationsMem [[exLater, exNow]] 0) ! 1) = [''b'', ''a'']"
    by code_simp
  from sortMigrations_sorted_copy[of "[exLater, exNow]" 0 "[[exLater, exNow]]"] d
  have "sorted_wrt (\<lambda>x y. Before (Date x) (Date y)) (sortMigrations [exLater, exNow])"
    by blast
  then show ?thesis using d n m by simp
qed

subsection \<open>C2: reconciliation\<close>

text \<open>
  C2 says, of every reconciliation, that running it twice with no apply in between yields
  the same result. A driver can fail in one read and not in the next. With migration
  \<^verbatim>\<open>a\<close> tracked: a read whose \<^verbatim>\<open>Query\<close> fails returns that error and the next read
  returns the empty list; a read whose cursor fails at the first \<^verbatim>\<open>Next\<close> returns the list
  holding \<^verbatim>\<open>a\<close> and the next read returns the empty list. The database is the same
  before and after each of these reads.
\<close>
theorem needsToRun_reconciles_counterexample:
  "fst (needsToRun exQueryFails [exA]) = Inl (Error ''driver: bad connection'')
   \<and> database (snd (needsToRun exQueryFails [exA])) = database exQueryFails
   \<and> fst (needsToRun (snd (needsToRun exQueryFails [exA])) [exA]) = Inr []
   \<and> fst (needsToRun exCursorFails [exA]) = Inr [exA]
   \<and> database (snd (needsToRun exCursorFails [exA])) = database exCursorFails
   \<and> fst (needsToRun (snd (needsToRun exCursorFails [exA])) [exA]) = Inr []
   \<and> fst (needsToRun (snd (needsToRun exCursorFails [exA])) [exA])
      \<noteq> fst (needsToRun exCursorFails [exA])"
proof -
  have 1: "fst (needsToRun exQueryFails [exA]) = Inl (Error ''driver: bad connection'')"
    by (simp add: exQueryFails_def ex_simps)
  have 2: "fst (needsToRun (snd (needsToRun exQueryFails [exA])) [exA]) = Inr []"
    by (simp add: exQueryFails_def ex_simps)
  have 3: "fst (needsToRun exCursorFails [exA]) = Inr [exA]"
    by (simp add: exCursorFails_def ex_simps)
  have 4: "fst (needsToRun (snd (needsToRun exCursorFails [exA])) [exA]) = Inr []"
    by (simp add: exCursorFails_def ex_simps)
  have 5: "database (snd (needsToRun exQueryFails [exA])) = database exQueryFails
     \<and> database (snd (needsToRun exCursorFails [exA])) = database exCursorFails"
    by code_simp
  show ?thesis using 1 2 3 4 5 by simp
qed

text \<open>
  C2, amended. For every candidate collection and every applied set read from the tracking
  table (the names the cursor loop put into \<^verbatim>\<open>hasRun\<close>), \<^verbatim>\<open>needsToRun\<close> returns exactly
  the candidates whose tracking key is not in that set, in their original relative order,
  and changes nothing in the database. When no call of the read fails, the applied set is
  the set of the rows of the tracking table; and when no call of either read fails, a
  second reconciliation with no apply in between returns the same result.
\<close>
theorem needsToRun_reconciles:
  assumes "needsToRun w migs = (res, w')" and "trace w' = trace w @ evs"
  shows "(\<forall>toRun. res = Inr toRun \<longrightarrow>
            toRun = filter (\<lambda>c. dbName c \<notin> hasRunRead w) migs \<and> subseq toRun migs)
    \<and> database w' = database w
    \<and> ((\<forall>ev\<in>set evs. \<not> failed ev) \<longrightarrow>
          (\<exists>rows. tracking (database w) = Some rows \<and> hasRunRead w = set rows
             \<and> res = Inr (filter (\<lambda>c. dbName c \<notin> set rows) migs)))
    \<and> (\<forall>res2 w2 evs2.
          needsToRun w' migs = (res2, w2) \<and> trace w2 = trace w' @ evs2
          \<and> (\<forall>ev\<in>set evs. \<not> failed ev) \<and> (\<forall>ev\<in>set evs2. \<not> failed ev)
          \<longrightarrow> res2 = res)"
proof (intro conjI allI impI)
  fix toRun assume r: "res = Inr toRun"
  then show f: "toRun = filter (\<lambda>c. dbName c \<notin> hasRunRead w) migs"
    using needsToRun_Inr(2) assms(1) by blast
  show "subseq toRun migs" unfolding f by simp
next
  show "database w' = database w"
  proof (cases res)
    case (Inl err)
    then show ?thesis using needsToRun_Inl(2) assms(1) by blast
  next
    case (Inr toRun)
    then show ?thesis using needsToRun_Inr(3) assms(1) by blast
  qed
  then have db: "database w' = database w" .
  show "\<exists>rows. tracking (database w) = Some rows \<and> hasRunRead w = set rows
             \<and> res = Inr (filter (\<lambda>c. dbName c \<notin> set rows) migs)"
    if "\<forall>ev\<in>set evs. \<not> failed ev"
    using needsToRun_clean[OF assms that] .
  fix res2 w2 evs2
  assume h: "needsToRun w' migs = (res2, w2) \<and> trace w2 = trace w' @ evs2
          \<and> (\<forall>ev\<in>set evs. \<not> failed ev) \<and> (\<forall>ev\<in>set evs2. \<not> failed ev)"
  from needsToRun_clean[OF assms] h obtain rows where
    1: "tracking (database w) = Some rows" "res = Inr (filter (\<lambda>c. dbName c \<notin> set rows) migs)"
    by blast
  from needsToRun_clean[of w' migs res2 w2 evs2] h obtain rows2 where
    2: "tracking (database w') = Some rows2" "res2 = Inr (filter (\<lambda>c. dbName c \<notin> set rows2) migs)"
    by blast
  show "res2 = res" using 1 2 db by simp
qed

theorem needsToRun_reconciles_witness:
  "map Name (projr (fst (needsToRun exWorld [exA, exB]))) = [''b'']
   \<and> trace (snd (needsToRun exWorld [exA, exB]))
      = [QuerySelect None, RowsNext None, RowsScan None, RowsNext None, RowsClose]
   \<and> hasRunRead exWorld = set [''1599691380_a'']
   \<and> fst (needsToRun exWorld [exA, exB])
      = Inr (filter (\<lambda>c. dbName c \<notin> set [''1599691380_a'']) [exA, exB])
   \<and> fst (needsToRun (snd (needsToRun exWorld [exA, exB])) [exA, exB])
      = fst (needsToRun exWorld [exA, exB])"
proof -
  let ?w1 = "snd (needsToRun exWorld [exA, exB])"
  let ?evs = "[QuerySelect None, RowsNext None, RowsScan None, RowsNext None, RowsClose]"
  have n: "map Name (projr (fst (needsToRun exWorld [exA, exB]))) = [''b'']"
    by code_simp
  have t1: "trace ?w1 = ?evs" by code_simp
  have t2: "trace (snd (needsToRun ?w1 [exA, exB])) = ?evs @ ?evs" by code_simp
  have tr: "tracking (database exWorld) = Some [''1599691380_a'']"
    by (simp add: exWorld_def)
  have ok: "\<forall>ev\<in>set ?evs. \<not> failed ev" by simp
  note t = needsToRun_reconciles[of exWorld "[exA, exB]" "fst (needsToRun exWorld [exA, exB])"
      ?w1 ?evs]
  have a1: "needsToRun exWorld [exA, exB] = (fst (needsToRun exWorld [exA, exB]), ?w1)" by simp
  have a2: "trace ?w1 = trace exWorld @ ?evs" using t1 by (simp add: exWorld_def)
  from t[OF a1 a2] ok tr have c: "hasRunRead exWorld = set [''1599691380_a'']
      \<and> fst (needsToRun exWorld [exA, exB])
         = Inr (filter (\<lambda>c. dbName c \<notin> set [''1599691380_a'']) [exA, exB])"
    by auto
  have "needsToRun ?w1 [exA, exB]
        = (fst (needsToRun ?w1 [exA, exB]), snd (needsToRun ?w1 [exA, exB]))
      \<and> trace (snd (needsToRun ?w1 [exA, exB])) = trace ?w1 @ ?evs
      \<and> (\<forall>ev\<in>set ?evs. \<not> failed ev) \<and> (\<forall>ev\<in>set ?evs. \<not> failed ev)"
    using t1 t2 by simp
  with t[OF a1 a2] have "fst (needsToRun ?w1 [exA, exB]) = fst (needsToRun exWorld [exA, exB])"
    by blast
  then show ?thesis using n t1 c by simp
qed

subsection \<open>C6: failures while the applied set is read\<close>

text \<open>
  C6 says that every failure while the applied set is read makes \<^verbatim>\<open>needsToRun\<close> return the
  underlying error, and that partial reads are never tolerated. The source checks the error
  of \<^verbatim>\<open>Query\<close> only. With migration \<^verbatim>\<open>a\<close> tracked: when \<^verbatim>\<open>Scan\<close> fails on its row, or
  when the cursor fails before the row is read, \<^verbatim>\<open>needsToRun\<close> returns no error and lists
  \<^verbatim>\<open>a\<close> as not yet applied; read without failure, the same table lists nothing. A
  \<^verbatim>\<open>Migrate\<close> whose read meets the failing \<^verbatim>\<open>Scan\<close> returns nil and leaves the row of
  \<^verbatim>\<open>a\<close> in the tracking table twice.
\<close>
theorem needsToRun_drops_read_errors:
  "fst (needsToRun exScanFails [exA]) = Inr [exA]
   \<and> trace (snd (needsToRun exScanFails [exA]))
     = [QuerySelect None, RowsNext None, RowsScan (Some (Error ''sql: Scan error'')),
        RowsNext None, RowsClose]
   \<and> fst (needsToRun exCursorFails [exA]) = Inr [exA]
   \<and> trace (snd (needsToRun exCursorFails [exA]))
     = [QuerySelect None, RowsNext (Some (Error ''driver: bad connection'')), RowsClose]
   \<and> fst (needsToRun exWorld [exA]) = Inr []
   \<and> fst (Migrate (exScanFails\<lparr>script := None # script exScanFails\<rparr>) [exA]) = Returned None
   \<and> rowsOf (database (snd (Migrate (exScanFails\<lparr>script := None # script exScanFails\<rparr>) [exA])))
     = [''1599691380_a'', ''1599691380_a'']"
proof -
  have 1: "fst (needsToRun exScanFails [exA]) = Inr [exA]"
    by (simp add: exScanFails_def ex_simps)
  have 2: "fst (needsToRun exCursorFails [exA]) = Inr [exA]"
    by (simp add: exCursorFails_def ex_simps)
  have 3: "fst (needsToRun exWorld [exA]) = Inr []"
    by (simp add: ex_simps)
  have 4: "trace (snd (needsToRun exScanFails [exA]))
     = [QuerySelect None, RowsNext None, RowsScan (Some (Error ''sql: Scan error'')),
        RowsNext None, RowsClose]
   \<and> trace (snd (needsToRun exCursorFails [exA]))
     = [QuerySelect None, RowsNext (Some (Error ''driver: bad connection'')), RowsClose]
   \<and> fst (Migrate (exScanFails\<lparr>script := None # script exScanFails\<rparr>) [exA]) = Returned None
   \<and> rowsOf (database (snd (Migrate (exScanFails\<lparr>script := None # script exScanFails\<rparr>) [exA])))
     = [''1599691380_a'', ''1599691380_a'']"
    by code_simp
  show ?thesis using 1 2 3 4 by simp
qed

subsection \<open>C8: progress notifications\<close>

text \<open>
  C8 says that both runners report, after each successful step, the 1-based position of the
  step within the batch and the batch total. \<^verbatim>\<open>migrateDownN\<close> formats the index \<^verbatim>\<open>i\<close> into
  the sorted list where \<^verbatim>\<open>migrateUpN\<close> formats \<^verbatim>\<open>i+1\<close>: a batch of one down step on a
  list of one migration reports position 0 of 1, where the up step reports 1 of 1.
\<close>
theorem migrateDownN_logs_index:
  "trace (snd (migrateDownN exWorld [exA] 1))
     = [TxBegin None, CalledDown ''a'' None, ExecDelete ''1599691380_a'' None,
        LogInfo [] ''Down'd 1599691380_a (0/1)'', TxCommit None]
   \<and> trace (snd (migrateUpN exWorld [exB] 1))
     = [TxBegin None, CalledUp ''b'' None, ExecInsert ''1599691380_b'' None,
        LogInfo [] ''Up'd 1599691380_b (1/1)'', TxCommit None]"
  by code_simp

subsection \<open>C1: a failing step rolls the batch back\<close>

lemma stepEvent_not_failed: "stepEvent s ev \<Longrightarrow> \<not> failed ev \<and> ev \<noteq> TxRollback \<and> (\<forall>res. ev \<noteq> TxCommit res)"
  by (auto simp: stepEvent_def)

lemma upTail_failed:
  assumes "upTail s n i r tail" "ev \<in> set tail" "failed ev" "isUp ev \<or> isInsert ev"
  shows "(\<exists>e. r = Returned (Some e)) \<and> last tail = TxRollback \<and> (\<forall>res. TxCommit res \<notin> set tail)"
  using assms unfolding upTail_def by auto

text \<open>
  C1. For every migration list, every \<^verbatim>\<open>n\<close> and every \<^verbatim>\<open>k\<close>: if the \<^verbatim>\<open>k\<close>-th increment
  that \<^verbatim>\<open>migrateUpN\<close> runs fails (its \<^verbatim>\<open>Up\<close> returns an error, or the insert of its
  tracking row fails), then the runner returns a non-nil error, the last call it makes is
  the rollback of the transaction, it never commits, and the committed database is what it
  was before the call: no tracking row and no schema change of the batch is persisted.
\<close>
theorem migrateUpN_atomic:
  assumes "migrateUpN w migs n = (r, w')" and "trace w' = trace w @ evs"
    and "(k < length (filter isUp evs) \<and> failed (filter isUp evs ! k))
       \<or> (k < length (filter isInsert evs) \<and> failed (filter isInsert evs ! k))"
  shows "(\<exists>e. r = Returned (Some e)) \<and> last evs = TxRollback
    \<and> (\<forall>res. TxCommit res \<notin> set evs) \<and> database w' = database w"
proof -
  from assms(3) obtain ev where ev: "ev \<in> set evs" "failed ev" "isUp ev \<or> isInsert ev"
  proof (elim disjE conjE)
    assume "k < length (filter isUp evs)" "failed (filter isUp evs ! k)"
    moreover from this have "filter isUp evs ! k \<in> set (filter isUp evs)" by (intro nth_mem)
    ultimately show ?thesis using that by auto
  next
    assume "k < length (filter isInsert evs)" "failed (filter isInsert evs ! k)"
    moreover from this have "filter isInsert evs ! k \<in> set (filter isInsert evs)" by (intro nth_mem)
    ultimately show ?thesis using that by auto
  qed
  from migrateUpN_shape(1)[OF assms(1)]
  have "(\<exists>e. r = Returned (Some e)) \<and> last evs = TxRollback \<and> (\<forall>res. TxCommit res \<notin> set evs)"
  proof (elim disjE exE conjE)
    fix err assume "trace w' = trace w @ [TxBegin (Some err)]"
    then have "evs = [TxBegin (Some err)]" using assms(2) by simp
    then show ?thesis using ev by auto
  next
    fix steps tail
    assume t: "trace w' = trace w @ [TxBegin None] @ steps @ tail"
      and s: "\<forall>ev\<in>set steps. stepEvent migs ev"
      and u: "upTail (sortMigrations migs) n 0 r tail"
    have e: "evs = [TxBegin None] @ steps @ tail" using t assms(2) by simp
    have "ev \<notin> set steps" using s ev(2) stepEvent_not_failed by blast
    then have "ev \<in> set tail" using ev e by auto
    from upTail_failed[OF u this ev(2,3)]
    have 1: "\<exists>e. r = Returned (Some e)" and 2: "last tail = TxRollback"
      and 3: "\<forall>res. TxCommit res \<notin> set tail" by auto
    have "tail \<noteq> []" using \<open>ev \<in> set tail\<close> by auto
    then have "last evs = TxRollback" using 2 e by simp
    moreover have "\<forall>res. TxCommit res \<notin> set evs"
      using 3 s e stepEvent_not_failed by fastforce
    ultimately show ?thesis using 1 by simp
  qed
  moreover from this have "database w' = database w"
    using migrateUpN_shape(2)[OF assms(1)] by auto
  ultimately show ?thesis by simp
qed

theorem migrateUpN_atomic_witness:
  "trace (snd (migrateUpN exWorld [exBad, exB] 2))
     = [TxBegin None, CalledUp ''b'' None, ExecInsert ''1599691380_b'' None,
        LogInfo [] ''Up'd 1599691380_b (1/2)'',
        CalledUp ''c'' (Some (Error ''something like a foreign or similar'')), TxRollback]
   \<and> fst (migrateUpN exWorld [exBad, exB] 2)
     = Returned (Some (Error ''Failed to up 1599691385_c: something like a foreign or similar''))
   \<and> database (snd (migrateUpN exWorld [exBad, exB] 2)) = database exWorld
   \<and> trace (snd (migrateUpN exInsertFails [exB] 1))
     = [TxBegin None, CalledUp ''b'' None,
        ExecInsert ''1599691380_b'' (Some (Error ''connection reset'')), TxRollback]
   \<and> fst (migrateUpN exInsertFails [exB] 1) = Returned (Some (Error ''connection reset''))
   \<and> database (snd (migrateUpN exInsertFails [exB] 1)) = database exInsertFails"
proof -
  let ?evs = "[TxBegin None, CalledUp ''b'' None, ExecInsert ''1599691380_b'' None,
        LogInfo [] ''Up'd 1599691380_b (1/2)'',
        CalledUp ''c'' (Some (Error ''something like a foreign or similar'')), TxRollback]"
  let ?evs2 = "[TxBegin None, CalledUp ''b'' None,
        ExecInsert ''1599691380_b'' (Some (Error ''connection reset'')), TxRollback]"
  have t: "trace (snd (migrateUpN exWorld [exBad, exB] 2)) = ?evs" by code_simp
  have r: "fst (migrateUpN exWorld [exBad, exB] 2)
     = Returned (Some (Error ''Failed to up 1599691385_c: something like a foreign or similar''))"
    by code_simp
  have a1: "migrateUpN exWorld [exBad, exB] 2
      = (fst (migrateUpN exWorld [exBad, exB] 2), snd (migrateUpN exWorld [exBad, exB] 2))"
    by simp
  have a2: "trace (snd (migrateUpN exWorld [exBad, exB] 2)) = trace exWorld @ ?evs"
    using t by (simp add: exWorld_def)
  have a3: "(1 < length (filter isUp ?evs) \<and> failed (filter isUp ?evs ! 1))
       \<or> (1 < length (filter isInsert ?evs) \<and> failed (filter isInsert ?evs ! 1))"
    by simp
  have t2: "trace (snd (migrateUpN exInsertFails [exB] 1)) = ?evs2" by code_simp
  have r2: "fst (migrateUpN exInsertFails [exB] 1) = Returned (Some (Error ''connection reset''))"
    by code_simp
  have b1: "migrateUpN exInsertFails [exB] 1
      = (fst (migrateUpN exInsertFails [exB] 1), snd (migrateUpN exInsertFails [exB] 1))"
    by simp
  have b2: "trace (snd (migrateUpN exInsertFails [exB] 1)) = trace exInsertFails @ ?evs2"
    using t2 by (simp add: exInsertFails_def exWorld_def)
  have b3: "(0 < length (filter isUp ?evs2) \<and> failed (filter isUp ?evs2 ! 0))
       \<or> (0 < length (filter isInsert ?evs2) \<and> failed (filter isInsert ?evs2 ! 0))"
    by simp
  from migrateUpN_atomic[OF a1 a2 a3] migrateUpN_atomic[OF b1 b2 b3]
  show ?thesis using t r t2 r2 by simp
qed

subsection \<open>C7: a failing tracking-row write\<close>

lemma upTail_insert_failed:
  assumes "upTail s n i r tail" "ExecInsert key (Some err) \<in> set tail"
  shows "r = Returned (Some err) \<and> last tail = TxRollback"
  using assms unfolding upTail_def by auto

lemma upTail_up_failed:
  assumes "upTail s n i r tail" "CalledUp nm (Some err) \<in> set tail"
  shows "(\<exists>m\<in>set s. nm = Name m
      \<and> r = Returned (Some (Error (''Failed to up '' @ dbName m @ '': '' @ message err))))
    \<and> last tail = TxRollback"
  using assms unfolding upTail_def by auto

lemma downTail_delete_failed:
  assumes "downTail s n r tail" "ExecDelete key (Some err) \<in> set tail"
  shows "r = Returned (Some err) \<and> last tail = TxRollback"
  using assms unfolding downTail_def by auto

lemma downTail_down_failed:
  assumes "downTail s n r tail" "CalledDown nm (Some err) \<in> set tail"
  shows "(\<exists>m\<in>set s. nm = Name m
      \<and> r = Returned (Some (Error (''Failed to down '' @ dbName m @ '': '' @ message err))))
    \<and> last tail = TxRollback"
  using assms unfolding downTail_def by auto

lemma migrateUpN_failure:
  assumes "migrateUpN w migs n = (r, w')" "trace w' = trace w @ evs"
    and "ev \<in> set evs" "ev = ExecInsert key (Some err) \<or> ev = CalledUp nm (Some err)"
  shows "\<exists>tail. upTail (sortMigrations migs) n 0 r tail \<and> ev \<in> set tail
      \<and> last evs = last tail \<and> database w' = database w"
proof -
  from migrateUpN_shape(1)[OF assms(1)] show ?thesis
  proof (elim disjE exE conjE)
    fix e assume "trace w' = trace w @ [TxBegin (Some e)]"
    then have "evs = [TxBegin (Some e)]" using assms(2) by simp
    then show ?thesis using assms(3,4) by auto
  next
    fix steps tail
    assume t: "trace w' = trace w @ [TxBegin None] @ steps @ tail"
      and s: "\<forall>ev\<in>set steps. stepEvent migs ev"
      and u: "upTail (sortMigrations migs) n 0 r tail"
    have e: "evs = [TxBegin None] @ steps @ tail" using t assms(2) by simp
    have "failed ev" using assms(4) by auto
    then have "ev \<notin> set steps" using s stepEvent_not_failed by blast
    then have in_tail: "ev \<in> set tail" using assms(3,4) e by auto
    then have "tail \<noteq> []" by auto
    then have l: "last evs = last tail" using e by simp
    have "r \<noteq> Returned None" using u in_tail assms(4) unfolding upTail_def by auto
    then have "database w' = database w" using migrateUpN_shape(2)[OF assms(1)] by simp
    then show ?thesis using u in_tail l by blast
  qed
qed

lemma migrateDownN_failure:
  assumes "migrateDownN w migs n = (r, w')" "trace w' = trace w @ evs"
    and "ev \<in> set evs" "ev = ExecDelete key (Some err) \<or> ev = CalledDown nm (Some err)"
  shows "\<exists>tail. downTail (sortMigrations migs) n r tail \<and> ev \<in> set tail
      \<and> last evs = last tail \<and> database w' = database w"
proof -
  from migrateDownN_shape(1)[OF assms(1)] show ?thesis
  proof (elim disjE exE conjE)
    fix e assume "trace w' = trace w @ [TxBegin (Some e)]"
    then have "evs = [TxBegin (Some e)]" using assms(2) by simp
    then show ?thesis using assms(3,4) by auto
  next
    fix steps tail
    assume t: "trace w' = trace w @ [TxBegin None] @ steps @ tail"
      and s: "\<forall>ev\<in>set steps. stepEvent migs ev"
      and u: "downTail (sortMigrations migs) n r tail"
    have e: "evs = [TxBegin None] @ steps @ tail" using t assms(2) by simp
    have "failed ev" using assms(4) by auto
    then have "ev \<notin> set steps" using s stepEvent_not_failed by blast
    then have in_tail: "ev \<in> set tail" using assms(3,4) e by auto
    then have "tail \<noteq> []" by auto
    then have l: "last evs = last tail" using e by simp
    have "r \<noteq> Returned None" using u in_tail assms(4) unfolding downTail_def by auto
    then have "database w' = database w" using migrateDownN_shape(2)[OF assms(1)] by simp
    then show ?thesis using u in_tail l by blast
  qed
qed

text \<open>
  C7 says that a failing tracking-row write is reported like a failing increment: rolled
  back, and the error wrapped with the tracking key and the step. When the driver fails the
  \<^verbatim>\<open>INSERT\<close> of key \<^verbatim>\<open>1599691380_b\<close> (or the \<^verbatim>\<open>DELETE\<close> of \<^verbatim>\<open>1599691380_a\<close>) with
  the error "connection reset", the runner rolls back and returns that very error, in which
  the key does not occur.
\<close>
theorem tracking_write_failure_counterexample:
  "fst (migrateUpN exInsertFails [exB] 1) = Returned (Some (Error ''connection reset''))
   \<and> trace (snd (migrateUpN exInsertFails [exB] 1))
      = [TxBegin None, CalledUp ''b'' None,
         ExecInsert ''1599691380_b'' (Some (Error ''connection reset'')), TxRollback]
   \<and> dbName exB = ''1599691380_b''
   \<and> \<not> sublist ''1599691380_b'' ''connection reset''
   \<and> fst (migrateDownN exInsertFails [exA] 1) = Returned (Some (Error ''connection reset''))
   \<and> trace (snd (migrateDownN exInsertFails [exA] 1))
      = [TxBegin None, CalledDown ''a'' None,
         ExecDelete ''1599691380_a'' (Some (Error ''connection reset'')), TxRollback]
   \<and> \<not> sublist ''1599691380_a'' ''connection reset''"
  by code_simp

text \<open>
  C7, amended. When a tracking-row write fails (the \<^verbatim>\<open>INSERT\<close> issued on up or the
  \<^verbatim>\<open>DELETE\<close> issued on down returns an error), the runner rolls back the whole
  transaction, persists nothing and returns the error of the write as it is, not wrapped.
  Only the error of a failing \<^verbatim>\<open>Up\<close> or \<^verbatim>\<open>Down\<close> increment is wrapped with the tracking
  key of its migration: "Failed to up KEY: ERROR", "Failed to down KEY: ERROR".
\<close>
theorem tracking_write_failure_unwrapped:
  fixes w :: "'s world"
  shows "(migrateUpN w migs n = (r, w') \<and> trace w' = trace w @ evs
        \<and> ExecInsert key (Some err) \<in> set evs
      \<longrightarrow> r = Returned (Some err) \<and> last evs = TxRollback \<and> database w' = database w)
    \<and> (migrateDownN w migs n = (r, w') \<and> trace w' = trace w @ evs
        \<and> ExecDelete key (Some err) \<in> set evs
      \<longrightarrow> r = Returned (Some err) \<and> last evs = TxRollback \<and> database w' = database w)
    \<and> (migrateUpN w migs n = (r, w') \<and> trace w' = trace w @ evs
        \<and> CalledUp nm (Some err) \<in> set evs
      \<longrightarrow> (\<exists>m\<in>set migs. nm = Name m
            \<and> r = Returned (Some (Error (''Failed to up '' @ dbName m @ '': '' @ message err))))
          \<and> last evs = TxRollback \<and> database w' = database w)
    \<and> (migrateDownN w migs n = (r, w') \<and> trace w' = trace w @ evs
        \<and> CalledDown nm (Some err) \<in> set evs
      \<longrightarrow> (\<exists>m\<in>set migs. nm = Name m
            \<and> r = Returned (Some (Error (''Failed to down '' @ dbName m @ '': '' @ message err))))
          \<and> last evs = TxRollback \<and> database w' = database w)"
proof -
  have 1: "r = Returned (Some err) \<and> last evs = TxRollback \<and> database w' = database w"
    if a: "migrateUpN w migs n = (r, w')" "trace w' = trace w @ evs"
      "ExecInsert key (Some err) \<in> set evs"
  proof -
    from migrateUpN_failure[OF a(1,2,3)] obtain tail where
      "upTail (sortMigrations migs) n 0 r tail" "ExecInsert key (Some err) \<in> set tail"
      "last evs = last tail" "database w' = database w" by blast
    then show ?thesis using upTail_insert_failed by fastforce
  qed
  have 2: "r = Returned (Some err) \<and> last evs = TxRollback \<and> database w' = database w"
    if a: "migrateDownN w migs n = (r, w')" "trace w' = trace w @ evs"
      "ExecDelete key (Some err) \<in> set evs"
  proof -
    from migrateDownN_failure[OF a(1,2,3)] obtain tail where
      "downTail (sortMigrations migs) n r tail"
      "ExecDelete key (Some err) \<in> set tail"
      "last evs = last tail" "database w' = database w" by blast
    then show ?thesis using downTail_delete_failed by fastforce
  qed
  have 3: "(\<exists>m\<in>set migs. nm = Name m
            \<and> r = Returned (Some (Error (''Failed to up '' @ dbName m @ '': '' @ message err))))
          \<and> last evs = TxRollback \<and> database w' = database w"
    if a: "migrateUpN w migs n = (r, w')" "trace w' = trace w @ evs"
      "CalledUp nm (Some err) \<in> set evs"
  proof -
    from migrateUpN_failure[OF a(1,2,3)] obtain tail where
      t: "upTail (sortMigrations migs) n 0 r tail" "CalledUp nm (Some err) \<in> set tail"
      "last evs = last tail" "database w' = database w" by blast
    from upTail_up_failed[OF t(1,2)] t(3,4) show ?thesis by simp
  qed
  have 4: "(\<exists>m\<in>set migs. nm = Name m
            \<and> r = Returned (Some (Error (''Failed to down '' @ dbName m @ '': '' @ message err))))
          \<and> last evs = TxRollback \<and> database w' = database w"
    if a: "migrateDownN w migs n = (r, w')" "trace w' = trace w @ evs"
      "CalledDown nm (Some err) \<in> set evs"
  proof -
    from migrateDownN_failure[OF a(1,2,3)] obtain tail where
      t: "downTail (sortMigrations migs) n r tail"
      "CalledDown nm (Some err) \<in> set tail"
      "last evs = last tail" "database w' = database w" by blast
    from downTail_down_failed[OF t(1,2)] t(3,4) show ?thesis by simp
  qed
  show ?thesis using 1 2 3 4 by blast
qed

theorem tracking_write_failure_unwrapped_witness:
  "ExecInsert ''1599691380_b'' (Some (Error ''connection reset''))
      \<in> set (trace (snd (migrateUpN exInsertFails [exB] 1)))
   \<and> fst (migrateUpN exInsertFails [exB] 1) = Returned (Some (Error ''connection reset''))
   \<and> last (trace (snd (migrateUpN exInsertFails [exB] 1))) = TxRollback
   \<and> database (snd (migrateUpN exInsertFails [exB] 1)) = database exInsertFails
   \<and> ExecDelete ''1599691380_a'' (Some (Error ''connection reset''))
      \<in> set (trace (snd (migrateDownN exInsertFails [exA] 1)))
   \<and> fst (migrateDownN exInsertFails [exA] 1) = Returned (Some (Error ''connection reset''))
   \<and> CalledUp ''c'' (Some (Error ''something like a foreign or similar''))
      \<in> set (trace (snd (migrateUpN exWorld [exBad] 1)))
   \<and> fst (migrateUpN exWorld [exBad] 1)
      = Returned (Some (Error ''Failed to up 1599691385_c: something like a foreign or similar''))
   \<and> CalledDown ''c'' (Some (Error ''something like a foreign or similar''))
      \<in> set (trace (snd (migrateDownN exWorld [exBad] 1)))
   \<and> fst (migrateDownN exWorld [exBad] 1)
      = Returned (Some (Error ''Failed to down 1599691385_c: something like a foreign or similar''))"
proof -
  have e: "trace exInsertFails = []" "trace exWorld = []"
    by (simp_all add: exInsertFails_def exWorld_def)
  have i: "ExecInsert ''1599691380_b'' (Some (Error ''connection reset''))
      \<in> set (trace (snd (migrateUpN exInsertFails [exB] 1)))" by code_simp
  have d: "ExecDelete ''1599691380_a'' (Some (Error ''connection reset''))
      \<in> set (trace (snd (migrateDownN exInsertFails [exA] 1)))" by code_simp
  have u: "CalledUp ''c'' (Some (Error ''something like a foreign or similar''))
      \<in> set (trace (snd (migrateUpN exWorld [exBad] 1)))" by code_simp
  have dn: "CalledDown ''c'' (Some (Error ''something like a foreign or similar''))
      \<in> set (trace (snd (migrateDownN exWorld [exBad] 1)))" by code_simp
  have ru: "fst (migrateUpN exWorld [exBad] 1)
      = Returned (Some (Error ''Failed to up 1599691385_c: something like a foreign or similar''))"
    by code_simp
  have rd: "fst (migrateDownN exWorld [exBad] 1)
      = Returned (Some (Error ''Failed to down 1599691385_c: something like a foreign or similar''))"
    by code_simp
  have 1: "fst (migrateUpN exInsertFails [exB] 1) = Returned (Some (Error ''connection reset''))
      \<and> last (trace (snd (migrateUpN exInsertFails [exB] 1))) = TxRollback
      \<and> database (snd (migrateUpN exInsertFails [exB] 1)) = database exInsertFails"
    using tracking_write_failure_unwrapped[of exInsertFails "[exB]" 1
        "fst (migrateUpN exInsertFails [exB] 1)" "snd (migrateUpN exInsertFails [exB] 1)"
        "trace (snd (migrateUpN exInsertFails [exB] 1))" "''1599691380_b''"
        "Error ''connection reset''"] i e
    by simp
  have 2: "fst (migrateDownN exInsertFails [exA] 1) = Returned (Some (Error ''connection reset''))"
    using tracking_write_failure_unwrapped[of exInsertFails "[exA]" 1
        "fst (migrateDownN exInsertFails [exA] 1)" "snd (migrateDownN exInsertFails [exA] 1)"
        "trace (snd (migrateDownN exInsertFails [exA] 1))" "''1599691380_a''"
        "Error ''connection reset''"] d e
    by simp
  show ?thesis using 1 2 i d u dn ru rd by simp
qed

subsection \<open>C10: indexing the sorted list\<close>









subsection \<open>Migrate\<close>

lemma itoa_nonempty: "itoa i \<noteq> []"
  by (simp add: itoa_def digits_nonempty)

lemma dbName_nonempty: "dbName mig \<noteq> []"
  using itoa_nonempty[of "Unix (Date mig)"]
  by (cases "itoa (Unix (Date mig))") (simp_all add: dbName_def Let_def)

lemma scanRows_dom_subset:
  "dom (fst (scanRows w rows hasRun)) \<subseteq> dom hasRun \<union> set rows \<union> {[]}"
proof (induction rows arbitrary: w hasRun)
  case Nil
  obtain r w1 where r: "respond w = (r, w1)" by (cases "respond w")
  then show ?case by (subst scanRows.simps) (cases r; auto)
next
  case (Cons row rest)
  obtain r w1 where r: "respond w = (r, w1)" by (cases "respond w")
  show ?case
  proof (cases r)
    case (Some err)
    then show ?thesis using r by (subst scanRows.simps) auto
  next
    case None
    obtain r2 w2 where r2: "respond (emit (RowsNext None) w1) = (r2, w2)"
      by (cases "respond (emit (RowsNext None) w1)")
    show ?thesis
    proof (cases r2)
      case (Some err)
      have "scanRows w (row # rest) hasRun
          = scanRows (emit (RowsScan (Some err)) w2) rest (hasRun([] \<mapsto> True))"
        using r None r2 Some by (subst scanRows.simps) simp
      moreover have B: "dom (hasRun([] \<mapsto> True)) = insert [] (dom hasRun)" by simp
      moreover have C: "set (row # rest) = insert row (set rest)" by simp
      moreover note Cons[of "emit (RowsScan (Some err)) w2" "hasRun([] \<mapsto> True)", unfolded B]
      ultimately show ?thesis unfolding C by (simp only:) blast
    next
      case n2: None
      have "scanRows w (row # rest) hasRun
          = scanRows (emit (RowsScan None) w2) rest (hasRun(row \<mapsto> True))"
        using r None r2 n2 by (subst scanRows.simps) simp
      moreover have B: "dom (hasRun(row \<mapsto> True)) = insert row (dom hasRun)" by simp
      moreover have C: "set (row # rest) = insert row (set rest)" by simp
      moreover note Cons[of "emit (RowsScan None) w2" "hasRun(row \<mapsto> True)", unfolded B]
      ultimately show ?thesis unfolding C by (simp only:) blast
    qed
  qed
qed

lemma hasRunRead_subset:
  assumes "tracking (database w) = Some rows"
  shows "hasRunRead w \<subseteq> set rows \<union> {[]}"
proof -
  obtain q w1 where q: "querySelect w = (q, w1)" by (cases "querySelect w")
  show ?thesis
  proof (cases q)
    case (Inl err)
    then show ?thesis using q by (simp add: hasRunRead_def)
  next
    case (Inr rows')
    then have "rows' = rows" using querySelect_eq(3)[OF q Inr] assms by simp
    then show ?thesis
      using q Inr scanRows_dom_subset[of w1 rows Map.empty] by (simp add: hasRunRead_def)
  qed
qed

lemma checkMigrationTable_eq:
  assumes "checkMigrationTable w = (c, wa)"
  shows "trace wa = trace w @ [ExecCreate c]"
    "rowsOf (database wa) = rowsOf (database w)" "schema (database wa) = schema (database w)"
    "c \<noteq> None \<Longrightarrow> database wa = database w"
    "tracking (database w) \<noteq> None \<Longrightarrow> database wa = database w"
  using assms
  by (auto simp: checkMigrationTable_def execCreate_def rowsOf_def dest: respond_eq
      split: prod.splits option.splits)

lemma Migrate_run:
  assumes "Migrate w migs = (r, w')"
  obtains (create) err where "r = Returned (Some err)" "checkMigrationTable w = (Some err, w')"
  | (query) wa err where "checkMigrationTable w = (None, wa)" "r = Returned (Some err)"
      "needsToRun wa migs = (Inl err, w')"
  | (run) wa toRun wb where "checkMigrationTable w = (None, wa)"
      "needsToRun wa migs = (Inr toRun, wb)"
      "migrateUpN (emit (LogInfo [(''n'', int (length toRun))] ''Running migrations...'') wb)
         toRun (int (length toRun)) = (r, w')"
proof -
  obtain c wa where c: "checkMigrationTable w = (c, wa)" by (cases "checkMigrationTable w")
  show ?thesis
  proof (cases c)
    case (Some err)
    then show ?thesis using create[of err] c assms by (simp add: Migrate_def)
  next
    case None
    obtain q wb where q: "needsToRun wa migs = (q, wb)" by (cases "needsToRun wa migs")
    show ?thesis
    proof (cases q)
      case (Inl err)
      then show ?thesis using query[of wa err] c None q assms by (simp add: Migrate_def)
    next
      case (Inr toRun)
      then show ?thesis using run[of wa toRun wb] c None q assms by (simp add: Migrate_def)
    qed
  qed
qed

lemma migrateUpN_tracking:
  assumes "migrateUpN w migs n = (Returned None, w')" "\<forall>m\<in>set migs. keepsTracking (Up m)"
  shows "tracking (database w')
       = map_option (\<lambda>rows. rows @ map dbName (take (nat n) (sortMigrations migs)))
           (tracking (database w))"
proof -
  obtain b w1 where b: "txBegin w = (b, w1)" by (cases "txBegin w")
  show ?thesis
  proof (cases b)
    case (Inl err)
    then show ?thesis using assms(1) b by (simp add: migrateUpN_def)
  next
    case (Inr tx)
    then have l: "upLoop w1 tx (sortMigrations migs) n 0 = (Returned None, w')"
      using assms(1) b by (simp add: migrateUpN_def)
    have "tx = database w" using txBegin_eq(3)[OF b Inr] by simp
    then show ?thesis using upLoop_tracking[OF l] assms(2) by simp
  qed
qed

lemma sortMigrations_Nil [simp]: "sortMigrations [] = []"
  by (simp add: sortMigrations_def Sort_def Len_def)

lemma migrateUpN_Nil:
  assumes "migrateUpN w [] 0 = (r, w')"
  shows "database w' = database w"
    "(\<exists>err. trace w' = trace w @ [TxBegin (Some err)])
     \<or> (\<exists>res. trace w' = trace w @ [TxBegin None, TxCommit res])"
proof -
  obtain b w1 where b: "txBegin w = (b, w1)" by (cases "txBegin w")
  have "database w' = database w
    \<and> ((\<exists>err. trace w' = trace w @ [TxBegin (Some err)])
     \<or> (\<exists>res. trace w' = trace w @ [TxBegin None, TxCommit res]))"
  proof (cases b)
    case (Inl err)
    then show ?thesis using assms b txBegin_eq(1,2)[OF b] by (simp add: migrateUpN_def)
  next
    case (Inr tx)
    obtain c w2 where c: "txCommit w1 tx = (c, w2)" by (cases "txCommit w1 tx")
    have "upLoop w1 tx [] 0 0 = (Returned c, w2)" using c by (subst upLoop.simps) simp
    then have r: "r = Returned c" "w' = w2" using assms b Inr by (simp_all add: migrateUpN_def)
    have tx: "tx = database w" "trace w1 = trace w @ [TxBegin None]" "database w1 = database w"
      using txBegin_eq(3)[OF b Inr] txBegin_eq(1)[OF b] by simp_all
    have "database w2 = database w" using txCommit_eq(2,3)[OF c] tx by (cases c) simp_all
    moreover have "trace w2 = trace w @ [TxBegin None, TxCommit c]"
      using txCommit_eq(1)[OF c] tx by simp
    ultimately show ?thesis using r by blast
  qed
  then show "database w' = database w"
    "(\<exists>err. trace w' = trace w @ [TxBegin (Some err)])
     \<or> (\<exists>res. trace w' = trace w @ [TxBegin None, TxCommit res])"
    by simp_all
qed

lemma Migrate_failed_database:
  assumes "Migrate w migs = (r, w')" "r \<noteq> Returned None"
  shows "rowsOf (database w') = rowsOf (database w) \<and> schema (database w') = schema (database w)"
  using assms(1)
proof (cases rule: Migrate_run)
  case (create err)
  then show ?thesis using checkMigrationTable_eq(2,3) by blast
next
  case (query wa err)
  then show ?thesis using checkMigrationTable_eq(2,3)[OF query(1)] needsToRun_Inl(2)[OF query(3)]
    by simp
next
  case (run wa toRun wb)
  have "database w' = database wb" using migrateUpN_shape(2)[OF run(3) assms(2)] by simp
  then show ?thesis
    using checkMigrationTable_eq(2,3)[OF run(1)] needsToRun_Inr(3)[OF run(2)] by simp
qed

lemma Migrate_success:
  assumes "Migrate w migs = (Returned None, w')" "\<forall>m\<in>set migs. keepsTracking (Up m)"
    "trace w' = trace w @ evs"
  obtains wa toRun where "checkMigrationTable w = (None, wa)"
    "tracking (database wa) = Some (rowsOf (database w))"
    "toRun = filter (\<lambda>c. dbName c \<notin> hasRunRead wa) migs"
    "tracking (database w') = Some (rowsOf (database w) @ map dbName (sortMigrations toRun))"
    "(\<forall>ev\<in>set evs. \<not> readFault ev) \<Longrightarrow> hasRunRead wa = set (rowsOf (database w))"
  using assms(1)
proof (cases rule: Migrate_run)
  case (run wa toRun wb)
  let ?wc = "emit (LogInfo [(''n'', int (length toRun))] ''Running migrations...'') wb"
  from needsToRun_Inr(1)[OF run(2)] obtain rows cur where
    r: "tracking (database wa) = Some rows"
       "trace wb = trace wa @ [QuerySelect None] @ cur @ [RowsClose]"
       "(\<forall>ev\<in>set cur. \<not> readFault ev) \<longrightarrow> hasRunRead wa = set rows"
    by blast
  have rows: "rows = rowsOf (database w)"
    using r(1) checkMigrationTable_eq(2)[OF run(1)] by (simp add: rowsOf_def)
  have f: "toRun = filter (\<lambda>c. dbName c \<notin> hasRunRead wa) migs"
    using needsToRun_Inr(2)[OF run(2)] .
  have k: "\<forall>m\<in>set toRun. keepsTracking (Up m)" using assms(2) f by simp
  have db: "database ?wc = database wa" using needsToRun_Inr(3)[OF run(2)] by simp
  have "tracking (database w')
      = Some (rows @ map dbName (take (nat (int (length toRun))) (sortMigrations toRun)))"
    using migrateUpN_tracking[OF run(3) k] db r(1) by simp
  then have t: "tracking (database w') = Some (rowsOf (database w) @ map dbName (sortMigrations toRun))"
    using rows by simp
  have c: "hasRunRead wa = set (rowsOf (database w))" if "\<forall>ev\<in>set evs. \<not> readFault ev"
  proof -
    from migrateUpN_shape(1)[OF run(3)] obtain rest where "trace w' = trace ?wc @ rest"
      by auto
    then have "evs = [ExecCreate None] @ [QuerySelect None] @ cur @ [RowsClose]
        @ [LogInfo [(''n'', int (length toRun))] ''Running migrations...''] @ rest"
      using assms(3) r(2) checkMigrationTable_eq(1)[OF run(1)] by simp
    then have "\<forall>ev\<in>set cur. \<not> readFault ev" using that by simp
    then show ?thesis using r(3) rows by simp
  qed
  show ?thesis using that[OF run(1) _ f t c] r(1) rows by simp
qed simp_all

lemma Migrate_all_tracked:
  assumes "Migrate w migs = (Returned None, w')" "\<forall>m\<in>set migs. keepsTracking (Up m)"
  shows "\<exists>rows. tracking (database w') = Some rows \<and> (\<forall>c\<in>set migs. dbName c \<in> set rows)"
proof -
  obtain evs where e: "trace w' = trace w @ evs"
    using assms(1)
  proof (cases rule: Migrate_run)
    case (run wa toRun wb)
    from migrateUpN_shape(1)[OF run(3)] obtain rest where
      "trace w' = trace (emit (LogInfo [(''n'', int (length toRun))] ''Running migrations...'') wb) @ rest"
      by auto
    moreover from needsToRun_Inr(1)[OF run(2)] obtain cur where
      "trace wb = trace wa @ [QuerySelect None] @ cur @ [RowsClose]" by blast
    ultimately show ?thesis using that checkMigrationTable_eq(1)[OF run(1)] by simp
  qed simp_all
  from assms e show ?thesis
  proof (cases rule: Migrate_success)
    case (1 wa toRun)
    let ?rows = "rowsOf (database w) @ map dbName (sortMigrations toRun)"
    have "dbName c \<in> set ?rows" if c: "c \<in> set migs" for c
    proof (cases "c \<in> set toRun")
      case True
      then show ?thesis by simp
    next
      case False
      then have "dbName c \<in> hasRunRead wa" using c 1(3) by simp
      then have "dbName c \<in> set (rowsOf (database w))"
        using hasRunRead_subset[OF 1(2)] dbName_nonempty[of c] by auto
      then show ?thesis by simp
    qed
    then show ?thesis using 1(4) by blast
  qed
qed

lemma Migrate_again:
  assumes "tracking (database w) = Some rows" "\<forall>c\<in>set migs. dbName c \<in> set rows"
    "Migrate w migs = (r, w')" "trace w' = trace w @ evs" "\<forall>ev\<in>set evs. \<not> readFault ev"
  shows "(\<forall>ev\<in>set evs. \<not> isUp ev \<and> \<not> isInsert ev) \<and> database w' = database w"
  using assms(3)
proof (cases rule: Migrate_run)
  case (create err)
  then show ?thesis
    using checkMigrationTable_eq(1,4)[OF create(2)] assms(4) by auto
next
  case (query wa err)
  have "evs = [ExecCreate None, QuerySelect (Some err)]"
    using checkMigrationTable_eq(1)[OF query(1)] needsToRun_Inl(1)[OF query(3)] assms(4) by simp
  moreover have "database w' = database w"
    using checkMigrationTable_eq(5)[OF query(1)] needsToRun_Inl(2)[OF query(3)] assms(1) by simp
  ultimately show ?thesis by simp
next
  case (run wa toRun wb)
  let ?log = "LogInfo [(''n'', int (length toRun))] ''Running migrations...''"
  have da: "database wa = database w" using checkMigrationTable_eq(5)[OF run(1)] assms(1) by simp
  from needsToRun_Inr(1)[OF run(2)] obtain rows' cur where
    r: "tracking (database wa) = Some rows'"
       "trace wb = trace wa @ [QuerySelect None] @ cur @ [RowsClose]"
       "\<forall>ev\<in>set cur. isCursor ev"
       "(\<forall>ev\<in>set cur. \<not> readFault ev) \<longrightarrow> hasRunRead wa = set rows'"
    by blast
  have rows': "rows' = rows" using r(1) da assms(1) by simp
  from migrateUpN_shape(1)[OF run(3)] obtain rest where
    rest: "trace w' = trace (emit ?log wb) @ rest" by auto
  have e: "evs = [ExecCreate None, QuerySelect None] @ cur @ [RowsClose, ?log] @ rest"
    using rest assms(4) r(2) checkMigrationTable_eq(1)[OF run(1)] by simp
  then have "\<forall>ev\<in>set cur. \<not> readFault ev" using assms(5) by simp
  then have "hasRunRead wa = set rows" using r(4) rows' by simp
  then have "toRun = []" using needsToRun_Inr(2)[OF run(2)] assms(2) by simp
  then have m: "migrateUpN (emit ?log wb) [] 0 = (r, w')" using run(3) by simp
  have "database w' = database w"
    using migrateUpN_Nil(1)[OF m] needsToRun_Inr(3)[OF run(2)] da by simp
  moreover have "\<forall>ev\<in>set rest. \<not> isUp ev \<and> \<not> isInsert ev"
    using migrateUpN_Nil(2)[OF m] rest by auto
  moreover have "\<forall>ev\<in>set cur. \<not> isUp ev \<and> \<not> isInsert ev"
  proof
    fix ev assume "ev \<in> set cur"
    then have "isCursor ev" using r(3) by simp
    then show "\<not> isUp ev \<and> \<not> isInsert ev" by (cases ev) simp_all
  qed
  ultimately show ?thesis using e by auto
qed

lemma reread_after_failure:
  assumes "rowsOf (database w1) = rowsOf (database w)"
    "needsToRun (snd (checkMigrationTable w)) migs = (resA, wA)"
    "trace wA = trace (snd (checkMigrationTable w)) @ evsA" "\<forall>ev\<in>set evsA. \<not> failed ev"
    "needsToRun (snd (checkMigrationTable w1)) migs = (resB, wB)"
    "trace wB = trace (snd (checkMigrationTable w1)) @ evsB" "\<forall>ev\<in>set evsB. \<not> failed ev"
  shows "resB = resA"
proof -
  from needsToRun_clean[OF assms(2,3,4)] obtain rowsA where
    a: "tracking (database (snd (checkMigrationTable w))) = Some rowsA"
       "resA = Inr (filter (\<lambda>c. dbName c \<notin> set rowsA) migs)" by blast
  from needsToRun_clean[OF assms(5,6,7)] obtain rowsB where
    b: "tracking (database (snd (checkMigrationTable w1))) = Some rowsB"
       "resB = Inr (filter (\<lambda>c. dbName c \<notin> set rowsB) migs)" by blast
  have "rowsA = rowsOf (database w)"
    using a(1) checkMigrationTable_eq(2)[of w "fst (checkMigrationTable w)" "snd (checkMigrationTable w)"]
    by (simp add: rowsOf_def)
  moreover have "rowsB = rowsOf (database w1)"
    using b(1) checkMigrationTable_eq(2)[of w1 "fst (checkMigrationTable w1)" "snd (checkMigrationTable w1)"]
    by (simp add: rowsOf_def)
  ultimately show ?thesis using a(2) b(2) assms(1) by simp
qed

subsection \<open>C3: invoking Migrate again\<close>

text \<open>
  C3 says that a second \<^verbatim>\<open>Migrate\<close> with the same candidates on the same database applies
  nothing. An increment is given the transaction and may write to the tracking table: when
  the \<^verbatim>\<open>Up\<close> of unit \<^verbatim>\<open>w\<close> empties that table, the first call (with \<^verbatim>\<open>a\<close> tracked)
  returns nil and leaves only the row of \<^verbatim>\<open>w\<close>, and the second call runs the \<^verbatim>\<open>Up\<close> of
  \<^verbatim>\<open>a\<close> and inserts its row. And when the second call's \<^verbatim>\<open>Scan\<close> of the row of \<^verbatim>\<open>a\<close>
  fails, which \<^verbatim>\<open>needsToRun\<close> does not notice, the second call after a first that returned
  nil runs the \<^verbatim>\<open>Up\<close> of \<^verbatim>\<open>a\<close> again and leaves its row in the table twice.
\<close>
theorem Migrate_idempotent_counterexample:
  "fst (Migrate exWorld [exA, exWipe]) = Returned None
   \<and> rowsOf (database (snd (Migrate exWorld [exA, exWipe]))) = [''1599691390_w'']
   \<and> fst (Migrate (snd (Migrate exWorld [exA, exWipe])) [exA, exWipe]) = Returned None
   \<and> drop (length (trace (snd (Migrate exWorld [exA, exWipe]))))
        (trace (snd (Migrate (snd (Migrate exWorld [exA, exWipe])) [exA, exWipe])))
      = [ExecCreate None, QuerySelect None, RowsNext None, RowsScan None, RowsNext None,
         RowsClose, LogInfo [(''n'', 1)] ''Running migrations...'', TxBegin None,
         CalledUp ''a'' None, ExecInsert ''1599691380_a'' None,
         LogInfo [] ''Up'd 1599691380_a (1/1)'', TxCommit None]
   \<and> rowsOf (database (snd (Migrate (snd (Migrate exWorld [exA, exWipe])) [exA, exWipe])))
      = [''1599691390_w'', ''1599691380_a'']
   \<and> fst (Migrate exWorld [exA, exB]) = Returned None
   \<and> rowsOf (database (snd (Migrate exWorld [exA, exB]))) = [''1599691380_a'', ''1599691380_b'']
   \<and> fst (Migrate ((snd (Migrate exWorld [exA, exB]))
          \<lparr>script := [None, None, None, Some (Error ''sql: Scan error'')]\<rparr>) [exA, exB])
      = Returned None
   \<and> drop (length (trace (snd (Migrate exWorld [exA, exB]))))
        (trace (snd (Migrate ((snd (Migrate exWorld [exA, exB]))
          \<lparr>script := [None, None, None, Some (Error ''sql: Scan error'')]\<rparr>) [exA, exB])))
      = [ExecCreate None, QuerySelect None, RowsNext None,
         RowsScan (Some (Error ''sql: Scan error'')), RowsNext None, RowsScan None,
         RowsNext None, RowsClose, LogInfo [(''n'', 1)] ''Running migrations...'', TxBegin None,
         CalledUp ''a'' None, ExecInsert ''1599691380_a'' None,
         LogInfo [] ''Up'd 1599691380_a (1/1)'', TxCommit None]
   \<and> rowsOf (database (snd (Migrate ((snd (Migrate exWorld [exA, exB]))
          \<lparr>script := [None, None, None, Some (Error ''sql: Scan error'')]\<rparr>) [exA, exB])))
      = [''1599691380_a'', ''1599691380_b'', ''1599691380_a'']"
  by code_simp

text \<open>
  C3, amended. When the increments leave the tracking table alone and a call of
  \<^verbatim>\<open>Migrate\<close> has returned nil, a second call with the same candidates on the database it
  left, reading the tracking table without a cursor or scan failure, applies nothing: it
  invokes no \<^verbatim>\<open>Up\<close> increment, issues no tracking-row insert and leaves the database, the
  tracking table included, as it was. When a call has not returned nil (it rolled back, or
  stopped before its transaction), the tracking rows and the schema are what they were
  before it, and the reconciliation of a re-invocation returns what the reconciliation of
  the failed call returned, when no call of either read fails.
\<close>
theorem Migrate_idempotent:
  fixes w :: "'s world"
  shows "((\<forall>m\<in>set migs. keepsTracking (Up m))
        \<and> Migrate w migs = (Returned None, w1)
        \<and> Migrate w1 migs = (r2, w2) \<and> trace w2 = trace w1 @ evs2
        \<and> (\<forall>ev\<in>set evs2. \<not> readFault ev)
      \<longrightarrow> (\<forall>ev\<in>set evs2. \<not> isUp ev \<and> \<not> isInsert ev) \<and> database w2 = database w1)
    \<and> (Migrate w migs = (r, w1) \<and> r \<noteq> Returned None
      \<longrightarrow> rowsOf (database w1) = rowsOf (database w)
          \<and> schema (database w1) = schema (database w)
          \<and> (\<forall>resA wA evsA resB wB evsB.
                needsToRun (snd (checkMigrationTable w)) migs = (resA, wA)
                \<and> trace wA = trace (snd (checkMigrationTable w)) @ evsA
                \<and> (\<forall>ev\<in>set evsA. \<not> failed ev)
                \<and> needsToRun (snd (checkMigrationTable w1)) migs = (resB, wB)
                \<and> trace wB = trace (snd (checkMigrationTable w1)) @ evsB
                \<and> (\<forall>ev\<in>set evsB. \<not> failed ev)
              \<longrightarrow> resB = resA))"
proof -
  have 1: "(\<forall>ev\<in>set evs2. \<not> isUp ev \<and> \<not> isInsert ev) \<and> database w2 = database w1"
    if k: "\<forall>m\<in>set migs. keepsTracking (Up m)" and a: "Migrate w migs = (Returned None, w1)"
      and b: "Migrate w1 migs = (r2, w2)" "trace w2 = trace w1 @ evs2"
        "\<forall>ev\<in>set evs2. \<not> readFault ev"
  proof -
    from Migrate_all_tracked[OF a k] obtain rows where
      "tracking (database w1) = Some rows" "\<forall>c\<in>set migs. dbName c \<in> set rows" by blast
    then show ?thesis using Migrate_again[OF _ _ b] by blast
  qed
  have 2: "rowsOf (database w1) = rowsOf (database w)
          \<and> schema (database w1) = schema (database w)
          \<and> (\<forall>resA wA evsA resB wB evsB.
                needsToRun (snd (checkMigrationTable w)) migs = (resA, wA)
                \<and> trace wA = trace (snd (checkMigrationTable w)) @ evsA
                \<and> (\<forall>ev\<in>set evsA. \<not> failed ev)
                \<and> needsToRun (snd (checkMigrationTable w1)) migs = (resB, wB)
                \<and> trace wB = trace (snd (checkMigrationTable w1)) @ evsB
                \<and> (\<forall>ev\<in>set evsB. \<not> failed ev)
              \<longrightarrow> resB = resA)"
    if a: "Migrate w migs = (r, w1)" "r \<noteq> Returned None"
  proof -
    note d = Migrate_failed_database[OF a]
    then have "rowsOf (database w1) = rowsOf (database w)" by simp
    from reread_after_failure[OF this] d show ?thesis by blast
  qed
  show ?thesis using 1 2 by blast
qed

theorem Migrate_idempotent_witness:
  "keepsTracking (Up exA) \<and> keepsTracking (Up exB)
   \<and> fst (Migrate exWorld [exA, exB]) = Returned None
   \<and> rowsOf (database (snd (Migrate exWorld [exA, exB]))) = [''1599691380_a'', ''1599691380_b'']
   \<and> drop (length (trace (snd (Migrate exWorld [exA, exB]))))
        (trace (snd (Migrate (snd (Migrate exWorld [exA, exB])) [exA, exB])))
      = [ExecCreate None, QuerySelect None, RowsNext None, RowsScan None, RowsNext None,
         RowsScan None, RowsNext None, RowsClose, LogInfo [(''n'', 0)] ''Running migrations...'',
         TxBegin None, TxCommit None]
   \<and> database (snd (Migrate (snd (Migrate exWorld [exA, exB])) [exA, exB]))
      = database (snd (Migrate exWorld [exA, exB]))
   \<and> fst (Migrate exWorld [exA, exBad])
      = Returned (Some (Error ''Failed to up 1599691385_c: something like a foreign or similar''))
   \<and> rowsOf (database (snd (Migrate exWorld [exA, exBad]))) = [''1599691380_a'']
   \<and> schema (database (snd (Migrate exWorld [exA, exBad]))) = 0
   \<and> map Name (projr (fst (needsToRun (snd (checkMigrationTable exWorld)) [exA, exBad]))) = [''c'']
   \<and> fst (needsToRun (snd (checkMigrationTable (snd (Migrate exWorld [exA, exBad])))) [exA, exBad])
      = fst (needsToRun (snd (checkMigrationTable exWorld)) [exA, exBad])"
proof -
  let ?w1 = "snd (Migrate exWorld [exA, exB])"
  let ?w2 = "snd (Migrate ?w1 [exA, exB])"
  let ?evs2 = "[ExecCreate None, QuerySelect None, RowsNext None, RowsScan None, RowsNext None,
         RowsScan None, RowsNext None, RowsClose, LogInfo [(''n'', 0)] ''Running migrations...'',
         TxBegin None, TxCommit None]"
  have k: "keepsTracking (Up exA)" "keepsTracking (Up exB)"
    by (simp_all add: keepsTracking_def Up_def exA_def exB_def exUp_def NewSimpleMigration_def)
  then have ks: "\<forall>m\<in>set [exA, exB]. keepsTracking (Up m)" by simp
  have r1: "fst (Migrate exWorld [exA, exB]) = Returned None" by code_simp
  have rows1: "rowsOf (database ?w1) = [''1599691380_a'', ''1599691380_b'']" by code_simp
  have t2: "trace ?w2 = trace ?w1 @ ?evs2" by code_simp
  have nf: "\<forall>ev\<in>set ?evs2. \<not> readFault ev" by simp
  have a1: "Migrate exWorld [exA, exB] = (Returned None, ?w1)" using r1 by (simp add: prod_eq_iff)
  have a2: "Migrate ?w1 [exA, exB] = (fst (Migrate ?w1 [exA, exB]), ?w2)" by simp
  from Migrate_idempotent[of "[exA, exB]" exWorld ?w1 "fst (Migrate ?w1 [exA, exB])" ?w2 ?evs2]
    ks a1 a2 t2 nf
  have c1: "database ?w2 = database ?w1" by blast
  have d: "drop (length (trace ?w1)) (trace ?w2) = ?evs2" unfolding t2 by simp
  let ?f = "snd (Migrate exWorld [exA, exBad])"
  let ?ra = "needsToRun (snd (checkMigrationTable exWorld)) [exA, exBad]"
  let ?rb = "needsToRun (snd (checkMigrationTable ?f)) [exA, exBad]"
  let ?cur = "[QuerySelect None, RowsNext None, RowsScan None, RowsNext None, RowsClose]"
  have rf: "fst (Migrate exWorld [exA, exBad])
      = Returned (Some (Error ''Failed to up 1599691385_c: something like a foreign or similar''))"
    by code_simp
  have na: "map Name (projr (fst ?ra)) = [''c'']" by code_simp
  have ta: "trace (snd ?ra) = trace (snd (checkMigrationTable exWorld)) @ ?cur" by code_simp
  have tb: "trace (snd ?rb) = trace (snd (checkMigrationTable ?f)) @ ?cur" by code_simp
  have nc: "\<forall>ev\<in>set ?cur. \<not> failed ev" by simp
  have b1: "Migrate exWorld [exA, exBad] = (fst (Migrate exWorld [exA, exBad]), ?f)" by simp
  have b2: "fst (Migrate exWorld [exA, exBad]) \<noteq> Returned None" using rf by simp
  note t = Migrate_idempotent[of "[exA, exBad]" exWorld _ _ _ _ "fst (Migrate exWorld [exA, exBad])",
      THEN conjunct2, rule_format, OF conjI, OF b1 b2]
  have c2: "rowsOf (database ?f) = rowsOf (database exWorld)"
    "schema (database ?f) = schema (database exWorld)"
    using t by simp_all
  have "?ra = (fst ?ra, snd ?ra) \<and> trace (snd ?ra) = trace (snd (checkMigrationTable exWorld)) @ ?cur
      \<and> (\<forall>ev\<in>set ?cur. \<not> failed ev)
      \<and> ?rb = (fst ?rb, snd ?rb) \<and> trace (snd ?rb) = trace (snd (checkMigrationTable ?f)) @ ?cur
      \<and> (\<forall>ev\<in>set ?cur. \<not> failed ev)"
    using ta tb nc by simp
  with t have c3: "fst ?rb = fst ?ra" by blast
  have e: "rowsOf (database exWorld) = [''1599691380_a'']" "schema (database exWorld) = 0"
    by (simp_all add: exWorld_def rowsOf_def)
  show ?thesis using k r1 rows1 d c1 rf c2 e na c3 by simp
qed

subsection \<open>C9: duplicate tracking keys\<close>

text \<open>
  C9 says that \<^verbatim>\<open>Migrate\<close> never creates a duplicate tracking key, also for candidates of
  which two derive the same key. Two units with the same date whose names differ only after
  byte 489 derive the same 500-byte key; neither is tracked, reconciliation keeps both, and
  \<^verbatim>\<open>Migrate\<close> on an empty tracking table returns nil and leaves that key in it twice.
\<close>
theorem Migrate_tracking_distinct_counterexample:
  "distinct (rowsOf (database exEmpty))
   \<and> Name exFirst \<noteq> Name exSecond
   \<and> dbName exFirst = dbName exSecond
   \<and> fst (Migrate exEmpty [exFirst, exSecond]) = Returned None
   \<and> rowsOf (database (snd (Migrate exEmpty [exFirst, exSecond])))
      = [''1599691380_'' @ replicate 489 CHR ''x'', ''1599691380_'' @ replicate 489 CHR ''x'']
   \<and> \<not> distinct (rowsOf (database (snd (Migrate exEmpty [exFirst, exSecond]))))"
  by code_simp

text \<open>
  C9, amended. If the tracking table holds no duplicate key before a call of
  \<^verbatim>\<open>Migrate\<close> and the candidates derive pairwise distinct tracking keys, it holds no
  duplicate key after the call (the increments are taken to leave the tracking table alone,
  and the call to read it without a cursor or scan failure). The table has no uniqueness
  constraint: reconciliation compares each candidate with the rows read, not the
  candidates with each other.
\<close>
theorem Migrate_tracking_distinct:
  assumes "distinct (rowsOf (database w))" and "distinct (map dbName migs)"
    and "\<forall>m\<in>set migs. keepsTracking (Up m)"
    and "Migrate w migs = (r, w')" and "trace w' = trace w @ evs"
    and "\<forall>ev\<in>set evs. \<not> readFault ev"
  shows "distinct (rowsOf (database w'))"
proof (cases "r = Returned None")
  case True
  from assms(4)[unfolded True] assms(3,5) show ?thesis
  proof (cases rule: Migrate_success)
    case (1 wa toRun)
    let ?rows = "rowsOf (database w)"
    have h: "hasRunRead wa = set ?rows" using 1(5) assms(6) by simp
    have "distinct (map dbName toRun)" unfolding 1(3) using assms(2) by (rule distinct_map_filter)
    moreover have "mset (map dbName (sortMigrations toRun)) = mset (map dbName toRun)"
      by (simp add: mset_sortMigrations)
    ultimately have d: "distinct (map dbName (sortMigrations toRun))"
      by (metis mset_eq_imp_distinct_iff)
    have "set ?rows \<inter> set (map dbName (sortMigrations toRun)) = {}"
      using 1(3) h by auto
    then have "distinct (?rows @ map dbName (sortMigrations toRun))"
      using assms(1) d by simp
    then show ?thesis using 1(4) by (simp add: rowsOf_def)
  qed
next
  case False
  then show ?thesis using Migrate_failed_database[OF assms(4)] assms(1) by simp
qed

theorem Migrate_tracking_distinct_witness:
  "distinct (rowsOf (database exWorld)) \<and> distinct (map dbName [exA, exB])
   \<and> keepsTracking (Up exA) \<and> keepsTracking (Up exB)
   \<and> rowsOf (database (snd (Migrate exWorld [exA, exB]))) = [''1599691380_a'', ''1599691380_b'']
   \<and> distinct (rowsOf (database (snd (Migrate exWorld [exA, exB]))))"
proof -
  let ?w1 = "snd (Migrate exWorld [exA, exB])"
  let ?evs = "[ExecCreate None, QuerySelect None, RowsNext None, RowsScan None, RowsNext None,
      RowsClose, LogInfo [(''n'', 1)] ''Running migrations...'', TxBegin None, CalledUp ''b'' None,
      ExecInsert ''1599691380_b'' None, LogInfo [] ''Up'd 1599691380_b (1/1)'', TxCommit None]"
  have k: "keepsTracking (Up exA)" "keepsTracking (Up exB)"
    by (simp_all add: keepsTracking_def Up_def exA_def exB_def exUp_def NewSimpleMigration_def)
  have d0: "distinct (rowsOf (database exWorld))" by (simp add: exWorld_def rowsOf_def)
  have dk: "distinct (map dbName [exA, exB])" by code_simp
  have t: "trace ?w1 = trace exWorld @ ?evs" by code_simp
  have nf: "\<forall>ev\<in>set ?evs. \<not> readFault ev" by simp
  have rows1: "rowsOf (database ?w1) = [''1599691380_a'', ''1599691380_b'']" by code_simp
  have "distinct (rowsOf (database ?w1))"
    using Migrate_tracking_distinct[of exWorld "[exA, exB]" "fst (Migrate exWorld [exA, exB])"
        ?w1 ?evs] d0 dk k t nf
    by simp
  then show ?thesis using d0 dk k rows1 by simp
qed

end
